theory Spec2Isabelle
  imports Complex_Main "HOL-Library.AList"
begin

section \<open>Pixel-art vector smoothing engine: data model\<close>

text \<open>
  The editor exists in two variants: the monochrome one (a \<open>Set\<close> of keys \<open>"x,y"\<close>) and
  the coloured one (a \<open>Map\<close> from keys \<open>"x,y"\<close> to a hex colour). Both containers iterate in
  insertion order, and the contour tracer depends on that order, so the monochrome store
  is a list of cells without duplicates and the coloured store an association list with
  distinct keys. Cell coordinates are integers (they come from \<open>Math.floor\<close>), and the key
  string of a cell determines the cell, so a key is the pair of coordinates itself.
  Screen coordinates, radii, the seed and the ratios are JavaScript Numbers; they are read
  as real numbers.
\<close>

type_synonym cell = "int \<times> int"

datatype side = Top | Right | Bottom | Left

record edge =
  x1 :: int
  y1 :: int
  x2 :: int
  y2 :: int
  side :: side

datatype cornerType = Convex | Concave

datatype cornerMode = Random | Outer | Inner

datatype quadrant = TR_GAP_FILLET | BL_GAP_FILLET | BR_GAP_FILLET | TL_GAP_FILLET

record bridge =
  X :: int
  Y :: int
  quadrant :: quadrant

subsection \<open>Corner classification\<close>

definition getCornerType :: "edge \<Rightarrow> edge \<Rightarrow> cornerType" where
  "getCornerType edge1 edge2 =
     (let dx1 = x2 edge1 - x1 edge1;
          dy1 = y2 edge1 - y1 edge1;
          dx2 = x2 edge2 - x1 edge2;
          dy2 = y2 edge2 - y1 edge2;
          cross = dx1 * dy2 - dy1 * dx2
      in if cross > 0 then Convex else Concave)"

subsection \<open>Contour tracing\<close>

text \<open>\<open>hasPixel\<close> is membership of the key in the store, with no bounds test.\<close>

definition hasPixel :: "cell list \<Rightarrow> int \<Rightarrow> int \<Rightarrow> bool" where
  "hasPixel pixels x y = ((x, y) \<in> set pixels)"

text \<open>The edges one occupied cell pushes, in the order top, right, bottom, left.\<close>

definition cellEdges :: "(int \<Rightarrow> int \<Rightarrow> bool) \<Rightarrow> int \<Rightarrow> int \<Rightarrow> edge list" where
  "cellEdges has x y =
     (if \<not> has x (y - 1)
      then [\<lparr>x1 = x, y1 = y, x2 = x + 1, y2 = y, side = Top\<rparr>] else []) @
     (if \<not> has (x + 1) y
      then [\<lparr>x1 = x + 1, y1 = y, x2 = x + 1, y2 = y + 1, side = Right\<rparr>] else []) @
     (if \<not> has x (y + 1)
      then [\<lparr>x1 = x + 1, y1 = y + 1, x2 = x, y2 = y + 1, side = Bottom\<rparr>] else []) @
     (if \<not> has (x - 1) y
      then [\<lparr>x1 = x, y1 = y + 1, x2 = x, y2 = y, side = Left\<rparr>] else [])"

text \<open>
  The monochrome variant skips a stored cell that lies outside the current grid (the grid
  can be resized after painting); the coloured variant has no such test.
\<close>

definition boundaryEdges :: "int \<Rightarrow> int \<Rightarrow> cell list \<Rightarrow> edge list" where
  "boundaryEdges gridWidth gridHeight pixels =
     concat (map (\<lambda>(x, y).
       if x \<ge> gridWidth \<or> y \<ge> gridHeight \<or> x < 0 \<or> y < 0 then []
       else cellEdges (hasPixel pixels) x y) pixels)"

definition boundaryEdges_color :: "(cell \<times> string) list \<Rightarrow> edge list" where
  "boundaryEdges_color pixelMap =
     concat (map (\<lambda>(x, y). cellEdges (hasPixel (map fst pixelMap)) x y) (map fst pixelMap))"

text \<open>
  The test that an edge continues another one: the monochrome variant compares with a
  tolerance of 0.01 (on integers, \<open>|a - b| < 0.01\<close> is \<open>100 * |a - b| < 1\<close>), the coloured
  variant with \<open>===\<close>.
\<close>

definition joinsNear :: "edge \<Rightarrow> edge \<Rightarrow> bool" where
  "joinsNear current next =
     (100 * \<bar>x2 current - x1 next\<bar> < 1 \<and> 100 * \<bar>y2 current - y1 next\<bar> < 1)"

definition joinsExact :: "edge \<Rightarrow> edge \<Rightarrow> bool" where
  "joinsExact current next = (x2 current = x1 next \<and> y2 current = y1 next)"

text \<open>
  The inner \<open>while (true)\<close> loop: look for the first unused edge that continues \<open>current\<close>;
  stop when there is none, or when the edge just appended returns to the start of the
  first edge of the contour. The contour is never empty here: it starts as \<open>[edges[i]]\<close>.
\<close>

function traceLoop ::
  "(edge \<Rightarrow> edge \<Rightarrow> bool) \<Rightarrow> edge list \<Rightarrow> nat set \<Rightarrow> edge list \<Rightarrow> edge \<Rightarrow> edge list \<times> nat set"
where
  "traceLoop joins edges used contour current =
     (case find (\<lambda>j. j \<notin> used \<and> joins current (edges ! j)) [0..<length edges] of
        None \<Rightarrow> (contour, used)
      | Some j \<Rightarrow>
          (if joins (edges ! j) (hd (contour @ [edges ! j]))
           then (contour @ [edges ! j], insert j used)
           else traceLoop joins edges (insert j used) (contour @ [edges ! j]) (edges ! j)))"
  by pat_completeness auto
termination
proof (relation "measure (\<lambda>(joins, edges, used, contour, current).
                    card ({..<length edges} - used))")
  show "wf (measure (\<lambda>(joins, edges, used, contour, current).
                    card ({..<length edges} - used)))"
    by simp
next
  fix joins :: "edge \<Rightarrow> edge \<Rightarrow> bool" and edges :: "edge list" and used :: "nat set"
    and contour :: "edge list" and current :: edge and j :: nat
  assume "find (\<lambda>j. j \<notin> used \<and> joins current (edges ! j)) [0..<length edges] = Some j"
  then have j: "j < length edges" "j \<notin> used"
    by (auto simp: find_Some_iff)
  then have "{..<length edges} - insert j used \<subset> {..<length edges} - used"
    by auto
  then have "card ({..<length edges} - insert j used) < card ({..<length edges} - used)"
    by (simp add: psubset_card_mono)
  then show "((joins, edges, insert j used, contour @ [edges ! j], edges ! j),
              (joins, edges, used, contour, current))
             \<in> measure (\<lambda>(joins, edges, used, contour, current).
                    card ({..<length edges} - used))"
    by simp
qed

text \<open>
  The outer \<open>for\<close> loop over the edge indices: an unused edge starts a contour, and the
  contour is kept when it has more than two edges.
\<close>

fun contourLoop ::
  "(edge \<Rightarrow> edge \<Rightarrow> bool) \<Rightarrow> edge list \<Rightarrow> nat list \<Rightarrow> edge list list \<Rightarrow> nat set
     \<Rightarrow> edge list list \<times> nat set"
where
  "contourLoop joins edges [] contours used = (contours, used)"
| "contourLoop joins edges (i # rest) contours used =
     (if i \<in> used then contourLoop joins edges rest contours used
      else (case traceLoop joins edges (insert i used) [edges ! i] (edges ! i) of
              (contour, used') \<Rightarrow>
                contourLoop joins edges rest
                  (if length contour > 2 then contours @ [contour] else contours) used'))"

definition traceContours :: "(edge \<Rightarrow> edge \<Rightarrow> bool) \<Rightarrow> edge list \<Rightarrow> edge list list" where
  "traceContours joins edges =
     (if length edges = 0 then []
      else fst (contourLoop joins edges [0..<length edges] [] {}))"

definition findContour :: "int \<Rightarrow> int \<Rightarrow> cell list \<Rightarrow> edge list list" where
  "findContour gridWidth gridHeight pixels =
     traceContours joinsNear (boundaryEdges gridWidth gridHeight pixels)"

definition findContour_color :: "(cell \<times> string) list \<Rightarrow> edge list list" where
  "findContour_color pixelMap = traceContours joinsExact (boundaryEdges_color pixelMap)"

subsection \<open>Deterministic pseudo-random values\<close>

text \<open>
  The program computes \<open>pseudoRandom\<close>, and the sums \<open>seed + 1\<close> and \<open>seed + 2\<close> passed to
  it, in IEEE double precision with the platform's \<open>Math.sin\<close>. That arithmetic is a
  parameter of the model: a record of the operations on Numbers that occur there, each
  taking and returning the values of the doubles. What is proved below of the selection of
  corners and of bridges is proved for every such record, hence for the arithmetic of the
  program.
\<close>

record numberOps =
  numAdd :: "real \<Rightarrow> real \<Rightarrow> real"
  numSub :: "real \<Rightarrow> real \<Rightarrow> real"
  numMul :: "real \<Rightarrow> real \<Rightarrow> real"
  numSin :: "real \<Rightarrow> real"
  numFloor :: "real \<Rightarrow> real"

definition pseudoRandom :: "numberOps \<Rightarrow> int \<Rightarrow> int \<Rightarrow> real \<Rightarrow> real" where
  "pseudoRandom ops x y seed =
     (let n = numMul ops
                (numSin ops
                   (numAdd ops
                      (numAdd ops (numMul ops (of_int x) 12.9898) (numMul ops (of_int y) 78.233))
                      (numMul ops seed 43758.5453)))
                43758.5453
      in numSub ops n (numFloor ops n))"

subsection \<open>Rounding selection\<close>

text \<open>
  The body of the inner \<open>forEach\<close> of \<open>regenerateRounding\<close> for the edge \<open>i\<close> of the contour
  \<open>cId\<close>: the two early returns of the corner mode, then the threshold test. The set of
  keys \<open>"cId-i"\<close> is a set of pairs.
\<close>

definition roundingStep ::
  "numberOps \<Rightarrow> cornerMode \<Rightarrow> real \<Rightarrow> real \<Rightarrow> edge list \<Rightarrow> nat \<Rightarrow> nat \<Rightarrow> (nat \<times> nat) set \<Rightarrow> (nat \<times> nat) set"
where
  "roundingStep ops cornerMode seed roundedRatio contour cId i newRoundedCorners =
     (let edge = contour ! i;
          nextEdge = contour ! ((i + 1) mod length contour);
          cornerType = getCornerType edge nextEdge
      in if cornerMode = Outer \<and> cornerType \<noteq> Convex then newRoundedCorners
         else if cornerMode = Inner \<and> cornerType \<noteq> Concave then newRoundedCorners
         else if pseudoRandom ops (x2 edge) (y2 edge) seed < roundedRatio
              then insert (cId, i) newRoundedCorners
              else newRoundedCorners)"

definition selectRounded ::
  "numberOps \<Rightarrow> cornerMode \<Rightarrow> real \<Rightarrow> real \<Rightarrow> edge list list \<Rightarrow> (nat \<times> nat) set"
where
  "selectRounded ops cornerMode seed roundedRatio contours =
     fold (\<lambda>cId. fold (roundingStep ops cornerMode seed roundedRatio (contours ! cId) cId)
                       [0..<length (contours ! cId)])
          [0..<length contours] {}"

subsection \<open>Bridge synthesis\<close>

text \<open>
  The body of the double loop over the lattice points: the two diagonal tests, each
  pushing two records and setting the key of the lattice point in the map.
\<close>

definition bridgeStep ::
  "numberOps \<Rightarrow> (int \<Rightarrow> int \<Rightarrow> bool) \<Rightarrow> real \<Rightarrow> real \<Rightarrow> int \<Rightarrow> int
     \<Rightarrow> bridge list \<times> (cell \<rightharpoonup> bool) \<Rightarrow> bridge list \<times> (cell \<rightharpoonup> bool)"
where
  "bridgeStep ops has seed roundedRatio lx ly acc =
     (let Ptl = has (lx - 1) (ly - 1);
          Ptr = has lx (ly - 1);
          Pbl = has (lx - 1) ly;
          Pbr = has lx ly;
          acc1 = (if Ptl \<and> Pbr \<and> \<not> Ptr \<and> \<not> Pbl \<and> pseudoRandom ops lx ly (numAdd ops seed 1) < roundedRatio
                  then (fst acc @ [\<lparr>X = lx, Y = ly, quadrant = TR_GAP_FILLET\<rparr>,
                                   \<lparr>X = lx, Y = ly, quadrant = BL_GAP_FILLET\<rparr>],
                        (snd acc)((lx, ly) \<mapsto> True))
                  else acc)
      in if Ptr \<and> Pbl \<and> \<not> Ptl \<and> \<not> Pbr \<and> pseudoRandom ops lx ly (numAdd ops seed 2) < roundedRatio
         then (fst acc1 @ [\<lparr>X = lx, Y = ly, quadrant = BR_GAP_FILLET\<rparr>,
                           \<lparr>X = lx, Y = ly, quadrant = TL_GAP_FILLET\<rparr>],
               (snd acc1)((lx, ly) \<mapsto> True))
         else acc1)"

definition synthesizeBridges ::
  "numberOps \<Rightarrow> cornerMode \<Rightarrow> real \<Rightarrow> real \<Rightarrow> int \<Rightarrow> int \<Rightarrow> cell list
     \<Rightarrow> bridge list \<times> (cell \<rightharpoonup> bool)"
where
  "synthesizeBridges ops cornerMode seed roundedRatio gridWidth gridHeight pixels =
     (if cornerMode \<noteq> Outer \<and> length pixels > 0
      then fold (\<lambda>lx. fold (bridgeStep ops (hasPixel pixels) seed roundedRatio lx)
                            [1..gridHeight - 1])
                [1..gridWidth - 1] ([], Map.empty)
      else ([], Map.empty))"

subsection \<open>Paths\<close>

text \<open>
  A path is the list of the drawing commands issued: the calls on the canvas context, or
  the commands of the SVG path data (\<open>M\<close>, \<open>L\<close>, \<open>Q\<close>, \<open>Z\<close>) with their numeric operands.
\<close>

datatype pathCmd =
    MoveTo real real
  | LineTo real real
  | QuadTo real real real real
  | ArcTo real real real real real
  | ClosePath

record metrics =
  visualPixelWidth :: real
  visualPixelHeight :: real
  scaleFactor :: real
  displayWidth :: int
  displayHeight :: int

definition MAX_DISPLAY_SIZE :: real where
  "MAX_DISPLAY_SIZE = 700"

definition getDisplayMetrics :: "int \<Rightarrow> int \<Rightarrow> real \<Rightarrow> metrics" where
  "getDisplayMetrics gridWidth gridHeight aspectRatio =
     (let totalGridWidth = of_int gridWidth * aspectRatio;
          totalGridHeight = of_int gridHeight;
          sf = MAX_DISPLAY_SIZE / max totalGridWidth totalGridHeight;
          vpw = sf * aspectRatio;
          vph = sf
      in \<lparr>visualPixelWidth = vpw, visualPixelHeight = vph, scaleFactor = sf,
          displayWidth = \<lfloor>of_int gridWidth * vpw + 1 / 2\<rfloor>,
          displayHeight = \<lfloor>of_int gridHeight * vph + 1 / 2\<rfloor>\<rparr>)"

text \<open>
  \<open>drawBridgeFillet\<close>: the radius is clamped to half the smaller cell dimension; the SVG
  branch returns the path data, the canvas branch issues the calls.
\<close>

definition drawBridgeFillet :: "metrics \<Rightarrow> bridge \<Rightarrow> real \<Rightarrow> bool \<Rightarrow> pathCmd list" where
  "drawBridgeFillet m b r isSvg =
     (let cx = of_int (X b) * visualPixelWidth m;
          cy = of_int (Y b) * visualPixelHeight m;
          minDim = min (visualPixelWidth m) (visualPixelHeight m);
          maxR = min r (minDim * 0.5);
          (sx, sy, ex, ey) =
            (case quadrant b of
               TR_GAP_FILLET \<Rightarrow> (cx, cy - maxR, cx + maxR, cy)
             | BL_GAP_FILLET \<Rightarrow> (cx - maxR, cy, cx, cy + maxR)
             | BR_GAP_FILLET \<Rightarrow> (cx + maxR, cy, cx, cy + maxR)
             | TL_GAP_FILLET \<Rightarrow> (cx, cy - maxR, cx - maxR, cy))
      in if isSvg then [MoveTo sx sy, QuadTo cx cy ex ey, LineTo cx cy, ClosePath]
         else [MoveTo sx sy, QuadTo cx cy ex ey, LineTo cx cy, LineTo sx sy])"

text \<open>
  The flag \<open>shouldRound\<close> that \<open>drawScene\<close> and \<open>getSVGString\<close> compute for the end
  vertex of an edge.
\<close>

definition shouldRound :: "(nat \<times> nat) set \<Rightarrow> (cell \<rightharpoonup> bool) \<Rightarrow> nat \<Rightarrow> nat \<Rightarrow> edge \<Rightarrow> bool" where
  "shouldRound roundedCorners bridgeMap contourId i edge =
     (let sr = ((contourId, i) \<in> roundedCorners)
      in if bridgeMap (x2 edge, y2 edge) \<noteq> None then False else sr)"

text \<open>The commands \<open>drawScene\<close> issues for the edge \<open>i\<close> of a contour.\<close>

definition drawSceneEdge ::
  "metrics \<Rightarrow> real \<Rightarrow> (nat \<times> nat) set \<Rightarrow> (cell \<rightharpoonup> bool) \<Rightarrow> edge list \<Rightarrow> nat \<Rightarrow> nat \<Rightarrow> pathCmd list"
where
  "drawSceneEdge m r roundedCorners bridgeMap contour contourId i =
     (let edge = contour ! i;
          nextEdge = contour ! ((i + 1) mod length contour);
          minDim = min (visualPixelWidth m) (visualPixelHeight m);
          px = of_int (x2 edge) * visualPixelWidth m;
          py = of_int (y2 edge) * visualPixelHeight m
      in if shouldRound roundedCorners bridgeMap contourId i edge \<and> r > 0
         then (let dx1 = x2 edge - x1 edge;
                   dy1 = y2 edge - y1 edge;
                   dx2 = x2 nextEdge - x1 nextEdge;
                   dy2 = y2 nextEdge - y1 nextEdge;
                   maxR = min r (minDim * 0.5);
                   backX = px - (if dx1 \<noteq> 0 then of_int (sgn dx1) * maxR else 0);
                   backY = py - (if dy1 \<noteq> 0 then of_int (sgn dy1) * maxR else 0);
                   fwdX = px + (if dx2 \<noteq> 0 then of_int (sgn dx2) * maxR else 0);
                   fwdY = py + (if dy2 \<noteq> 0 then of_int (sgn dy2) * maxR else 0)
               in [LineTo backX backY, ArcTo px py fwdX fwdY maxR])
         else [LineTo px py])"

definition drawSceneContour ::
  "metrics \<Rightarrow> real \<Rightarrow> (nat \<times> nat) set \<Rightarrow> (cell \<rightharpoonup> bool) \<Rightarrow> edge list \<Rightarrow> nat \<Rightarrow> pathCmd list"
where
  "drawSceneContour m r roundedCorners bridgeMap contour contourId =
     (if length contour > 0
      then [MoveTo (of_int (x1 (contour ! 0)) * visualPixelWidth m)
                   (of_int (y1 (contour ! 0)) * visualPixelHeight m)]
      else []) @
     concat (map (drawSceneEdge m r roundedCorners bridgeMap contour contourId)
                 [0..<length contour]) @
     [ClosePath]"

text \<open>The path data \<open>getSVGString\<close> appends for the edge \<open>i\<close> of a contour.\<close>

definition svgEdge ::
  "metrics \<Rightarrow> real \<Rightarrow> (nat \<times> nat) set \<Rightarrow> (cell \<rightharpoonup> bool) \<Rightarrow> edge list \<Rightarrow> nat \<Rightarrow> nat \<Rightarrow> pathCmd list"
where
  "svgEdge m r roundedCorners bridgeMap contour contourId i =
     (let edge = contour ! i;
          nextEdge = contour ! ((i + 1) mod length contour);
          minDim = min (visualPixelWidth m) (visualPixelHeight m);
          px = of_int (x2 edge) * visualPixelWidth m;
          py = of_int (y2 edge) * visualPixelHeight m
      in if shouldRound roundedCorners bridgeMap contourId i edge \<and> r > 0
         then (let dx1 = x2 edge - x1 edge;
                   dy1 = y2 edge - y1 edge;
                   dx2 = x2 nextEdge - x1 nextEdge;
                   dy2 = y2 nextEdge - y1 nextEdge;
                   maxR = min r (minDim * 0.5);
                   backX = px - (if dx1 \<noteq> 0 then of_int (sgn dx1) * maxR else 0);
                   backY = py - (if dy1 \<noteq> 0 then of_int (sgn dy1) * maxR else 0);
                   fwdX = px + (if dx2 \<noteq> 0 then of_int (sgn dx2) * maxR else 0);
                   fwdY = py + (if dy2 \<noteq> 0 then of_int (sgn dy2) * maxR else 0)
               in [LineTo backX backY, QuadTo px py fwdX fwdY])
         else [LineTo px py])"

definition svgContour ::
  "metrics \<Rightarrow> real \<Rightarrow> (nat \<times> nat) set \<Rightarrow> (cell \<rightharpoonup> bool) \<Rightarrow> edge list \<Rightarrow> nat \<Rightarrow> pathCmd list"
where
  "svgContour m r roundedCorners bridgeMap contour contourId =
     (if length contour = 0 then []
      else [MoveTo (of_int (x1 (contour ! 0)) * visualPixelWidth m)
                   (of_int (y1 (contour ! 0)) * visualPixelHeight m)] @
           concat (map (svgEdge m r roundedCorners bridgeMap contour contourId)
                       [0..<length contour]) @
           [ClosePath])"

subsection \<open>Painting\<close>

datatype tool = Brush | Eraser

text \<open>
  \<open>Set.add\<close> keeps the position of a key that is already present and appends a new one;
  \<open>Set.delete\<close> removes the key.
\<close>

definition setAdd :: "'a \<Rightarrow> 'a list \<Rightarrow> 'a list" where
  "setAdd k ks = (if k \<in> set ks then ks else ks @ [k])"

definition setDelete :: "'a \<Rightarrow> 'a list \<Rightarrow> 'a list" where
  "setDelete k ks = removeAll k ks"

text \<open>The body of the two brush loops for the offsets \<open>dx\<close>, \<open>dy\<close> at the point \<open>pt\<close>.\<close>

definition paintCell ::
  "int \<Rightarrow> int \<Rightarrow> int \<Rightarrow> tool \<Rightarrow> cell \<Rightarrow> int \<Rightarrow> int \<Rightarrow> cell list \<Rightarrow> cell list"
where
  "paintCell gridWidth gridHeight offset actionType pt dy dx next =
     (let px = fst pt + dx - offset;
          py = snd pt + dy - offset
      in if px \<ge> 0 \<and> px < gridWidth \<and> py \<ge> 0 \<and> py < gridHeight
         then (if actionType = Brush then setAdd (px, py) next else setDelete (px, py) next)
         else next)"

definition updatePixelSet ::
  "int \<Rightarrow> int \<Rightarrow> int \<Rightarrow> cell list \<Rightarrow> tool \<Rightarrow> cell list \<Rightarrow> cell list"
where
  "updatePixelSet gridWidth gridHeight brushSize points actionType prev =
     (let offset = brushSize div 2
      in fold (\<lambda>pt. fold (\<lambda>dy. fold (paintCell gridWidth gridHeight offset actionType pt dy)
                                       [0..brushSize - 1])
                           [0..brushSize - 1])
              points prev)"

text \<open>
  The coloured variant: \<open>Map.set\<close> overwrites the colour of a present key in place and
  appends a new key; \<open>Map.delete\<close> removes the key. Its tool can also be the eyedropper,
  for which neither branch applies.
\<close>

datatype tool_color = Brush_c | Eraser_c | Eyedropper_c

definition paintCell_color ::
  "int \<Rightarrow> int \<Rightarrow> int \<Rightarrow> string \<Rightarrow> tool_color \<Rightarrow> cell \<Rightarrow> int \<Rightarrow> int
     \<Rightarrow> (cell \<times> string) list \<Rightarrow> (cell \<times> string) list"
where
  "paintCell_color gridWidth gridHeight offset currentColor actionType pt dy dx next =
     (let px = fst pt + dx - offset;
          py = snd pt + dy - offset
      in if px \<ge> 0 \<and> px < gridWidth \<and> py \<ge> 0 \<and> py < gridHeight
         then (if actionType = Brush_c then AList.update (px, py) currentColor next
               else if actionType = Eraser_c then AList.delete (px, py) next
               else next)
         else next)"

definition updatePixels_color ::
  "int \<Rightarrow> int \<Rightarrow> int \<Rightarrow> string \<Rightarrow> cell list \<Rightarrow> tool_color
     \<Rightarrow> (cell \<times> string) list \<Rightarrow> (cell \<times> string) list"
where
  "updatePixels_color gridWidth gridHeight brushSize currentColor points actionType prev =
     (let offset = brushSize div 2
      in fold (\<lambda>pt. fold (\<lambda>dy. fold (paintCell_color gridWidth gridHeight offset currentColor
                                          actionType pt dy)
                                       [0..brushSize - 1])
                           [0..brushSize - 1])
              points prev)"

section \<open>The editor state\<close>

text \<open>The state of the monochrome editor that the engine reads and writes.\<close>

record state =
  pixels :: "cell list"
  history :: "cell list list"
  redoStack :: "cell list list"
  roundness :: real
  roundedRatio :: real
  brushSize :: int
  roundedCorners :: "(nat \<times> nat) set"
  bridges :: "bridge list"
  bridgeMap :: "cell \<rightharpoonup> bool"
  cornerMode :: cornerMode
  seed :: real
  aspectRatio :: real
  lastActivePixel :: "cell option"
  gridWidth :: int
  gridHeight :: int

text \<open>The state the editor starts in (the arguments of its \<open>useState\<close> calls).\<close>

definition initialState :: state where
  "initialState =
     \<lparr>pixels = [], history = [], redoStack = [], roundness = 0.4, roundedRatio = 0.7,
      brushSize = 1, roundedCorners = {}, bridges = [], bridgeMap = Map.empty,
      cornerMode = Random, seed = 12345, aspectRatio = 1, lastActivePixel = None,
      gridWidth = 32, gridHeight = 32\<rparr>"

definition updatePixels :: "cell list \<Rightarrow> tool \<Rightarrow> state \<Rightarrow> state" where
  "updatePixels points actionType s =
     s\<lparr>pixels := updatePixelSet (gridWidth s) (gridHeight s) (brushSize s) points actionType
                    (pixels s)\<rparr>"

subsection \<open>History\<close>

text \<open>
  \<open>saveToHistory\<close> returns early when the last snapshot holds the same keys as the
  current set; otherwise it appends a copy, keeps the last 50 snapshots and empties the
  redo stack. \<open>slice(-50)\<close> drops all but the last 50 elements.
\<close>

definition sameKeys :: "cell list \<Rightarrow> cell list \<Rightarrow> bool" where
  "sameKeys lastState ps = (length lastState = length ps \<and> (\<forall>k \<in> set lastState. k \<in> set ps))"

definition saveToHistory :: "state \<Rightarrow> state" where
  "saveToHistory s =
     (if length (history s) > 0 \<and> sameKeys (last (history s)) (pixels s) then s
      else s\<lparr>history := drop (length (history s @ [pixels s]) - 50) (history s @ [pixels s]),
             redoStack := []\<rparr>)"

definition handleUndo :: "state \<Rightarrow> state" where
  "handleUndo s =
     (if length (history s) = 0 then s
      else s\<lparr>redoStack := pixels s # redoStack s,
             pixels := last (history s),
             history := butlast (history s),
             lastActivePixel := None\<rparr>)"

definition handleRedo :: "state \<Rightarrow> state" where
  "handleRedo s =
     (if length (redoStack s) = 0 then s
      else s\<lparr>history := history s @ [pixels s],
             pixels := hd (redoStack s),
             redoStack := tl (redoStack s)\<rparr>)"

text \<open>
  A paint stroke: pointer down snapshots the grid and paints a batch of points (one cell,
  or the cells of a line); every pointer move of the same stroke paints one more batch.
\<close>

definition paintStroke :: "cell list list \<Rightarrow> state \<Rightarrow> state" where
  "paintStroke batches s = fold (\<lambda>points. updatePixels points Brush) batches (saveToHistory s)"

subsection \<open>Recomputing the derived geometry\<close>

definition regenerateRounding :: "numberOps \<Rightarrow> state \<Rightarrow> state" where
  "regenerateRounding ops s =
     (let contours = findContour (gridWidth s) (gridHeight s) (pixels s);
          newRoundedCorners = selectRounded ops (cornerMode s) (seed s) (roundedRatio s) contours;
          (newBridges, newBridgeMap) =
             synthesizeBridges ops (cornerMode s) (seed s) (roundedRatio s)
               (gridWidth s) (gridHeight s) (pixels s)
      in s\<lparr>roundedCorners := newRoundedCorners, bridges := newBridges,
           bridgeMap := newBridgeMap\<rparr>)"

subsection \<open>The raster path and the exported path\<close>

text \<open>
  The path \<open>drawScene\<close> builds before filling it (nothing when the grid is empty), and the
  path data \<open>getSVGString\<close> puts into the \<open>d\<close> attribute.
\<close>

definition drawScene :: "state \<Rightarrow> pathCmd list" where
  "drawScene s =
     (let m = getDisplayMetrics (gridWidth s) (gridHeight s) (aspectRatio s)
      in if length (pixels s) = 0 then []
         else (let contours = findContour (gridWidth s) (gridHeight s) (pixels s);
                   minDim = min (visualPixelWidth m) (visualPixelHeight m);
                   r = roundness s * minDim
               in concat (map (\<lambda>contourId.
                            drawSceneContour m r (roundedCorners s) (bridgeMap s)
                              (contours ! contourId) contourId)
                          [0..<length contours]) @
                  (if length (bridges s) > 0 \<and> r > 0
                   then concat (map (\<lambda>b. drawBridgeFillet m b (r * minDim) False) (bridges s))
                   else [])))"

definition getSVGString :: "state \<Rightarrow> pathCmd list" where
  "getSVGString s =
     (let m = getDisplayMetrics (gridWidth s) (gridHeight s) (aspectRatio s);
          contours = findContour (gridWidth s) (gridHeight s) (pixels s);
          minDim = min (visualPixelWidth m) (visualPixelHeight m);
          r = roundness s * minDim
      in concat (map (\<lambda>contourId.
                   svgContour m r (roundedCorners s) (bridgeMap s)
                     (contours ! contourId) contourId)
                 [0..<length contours]) @
         (if length (bridges s) > 0 \<and> r > 0
          then concat (map (\<lambda>b. drawBridgeFillet m b r True) (bridges s))
          else []))"

section \<open>The coloured editor: state and history\<close>

text \<open>
  The part of the state of the coloured editor that painting and the history use. Its
  \<open>saveToHistory\<close> skips the snapshot only when the last snapshot and the current map are
  both empty.
\<close>

record state_color =
  pixelMap :: "(cell \<times> string) list"
  history_color :: "(cell \<times> string) list list"
  redoStack_color :: "(cell \<times> string) list list"
  currentColor :: string
  brushSize_color :: int
  gridWidth_color :: int
  gridHeight_color :: int

definition initialState_color :: state_color where
  "initialState_color =
     \<lparr>pixelMap = [], history_color = [], redoStack_color = [], currentColor = ''#000000'',
      brushSize_color = 1, gridWidth_color = 32, gridHeight_color = 32\<rparr>"

definition updatePixelMap :: "cell list \<Rightarrow> tool_color \<Rightarrow> state_color \<Rightarrow> state_color" where
  "updatePixelMap points actionType s =
     s\<lparr>pixelMap := updatePixels_color (gridWidth_color s) (gridHeight_color s) (brushSize_color s)
                      (currentColor s) points actionType (pixelMap s)\<rparr>"

definition saveToHistory_color :: "state_color \<Rightarrow> state_color" where
  "saveToHistory_color s =
     (let currentMap = pixelMap s
      in if length (history_color s) > 0 \<and>
            (length (last (history_color s)) = length currentMap \<and>
             length (last (history_color s)) = 0)
         then s
         else s\<lparr>history_color :=
                   drop (length (history_color s @ [currentMap]) - 50)
                        (history_color s @ [currentMap]),
                redoStack_color := []\<rparr>)"

definition handleUndo_color :: "state_color \<Rightarrow> state_color" where
  "handleUndo_color s =
     (if length (history_color s) = 0 then s
      else s\<lparr>redoStack_color := pixelMap s # redoStack_color s,
             pixelMap := last (history_color s),
             history_color := butlast (history_color s)\<rparr>)"

definition handleRedo_color :: "state_color \<Rightarrow> state_color" where
  "handleRedo_color s =
     (if length (redoStack_color s) = 0 then s
      else s\<lparr>history_color := history_color s @ [pixelMap s],
             pixelMap := hd (redoStack_color s),
             redoStack_color := tl (redoStack_color s)\<rparr>)"

definition paintStroke_color :: "cell list list \<Rightarrow> state_color \<Rightarrow> state_color" where
  "paintStroke_color batches s =
     fold (\<lambda>points. updatePixelMap points Brush_c) batches (saveToHistory_color s)"

section \<open>Vocabulary of the properties\<close>

text \<open>
  The notions the properties below are stated with. An edge runs from its start point to
  its end point; a contour is chained when every edge starts where the previous one ends,
  and a closed loop when its last edge ends where its first edge starts. The remaining
  definitions count, at a lattice point, the unused edges that leave it and that enter it;
  they carry the invariant of the tracing loops. \<open>inGrid\<close> says that every stored cell lies
  inside the grid, \<open>allEdges\<close> lists the edges of all the cells of a list with no bounds
  test, and \<open>cellOf\<close> is the cell that pushed an edge.
\<close>

definition startp :: "edge \<Rightarrow> cell" where
  "startp e = (x1 e, y1 e)"

definition endp :: "edge \<Rightarrow> cell" where
  "endp e = (x2 e, y2 e)"

fun chained :: "edge list \<Rightarrow> bool" where
  "chained [] = True"
| "chained [e] = True"
| "chained (e # f # rest) = (startp f = endp e \<and> chained (f # rest))"

definition closedLoop :: "edge list \<Rightarrow> bool" where
  "closedLoop c = (c \<noteq> [] \<and> endp (last c) = startp (hd c))"

definition wellFormed :: "edge list \<Rightarrow> bool" where
  "wellFormed c = (length c > 2 \<and> chained c \<and> closedLoop c)"

definition outIdx :: "edge list \<Rightarrow> nat set \<Rightarrow> cell \<Rightarrow> nat set" where
  "outIdx edges used v = {j. j < length edges \<and> j \<notin> used \<and> startp (edges ! j) = v}"

definition inIdx :: "edge list \<Rightarrow> nat set \<Rightarrow> cell \<Rightarrow> nat set" where
  "inIdx edges used v = {j. j < length edges \<and> j \<notin> used \<and> endp (edges ! j) = v}"

definition excess :: "edge list \<Rightarrow> nat set \<Rightarrow> cell \<Rightarrow> int" where
  "excess edges used v = int (card (outIdx edges used v)) - int (card (inIdx edges used v))"

definition balanced :: "edge list \<Rightarrow> nat set \<Rightarrow> bool" where
  "balanced edges used = (\<forall>v. excess edges used v = 0)"

definition inGrid :: "int \<Rightarrow> int \<Rightarrow> cell list \<Rightarrow> bool" where
  "inGrid gw gh ps = (\<forall>p \<in> set ps. 0 \<le> fst p \<and> fst p < gw \<and> 0 \<le> snd p \<and> snd p < gh)"

definition allEdges :: "(int \<Rightarrow> int \<Rightarrow> bool) \<Rightarrow> cell list \<Rightarrow> edge list" where
  "allEdges has ps = concat (map (\<lambda>(a, b). cellEdges has a b) ps)"

definition cellOf :: "edge \<Rightarrow> cell" where
  "cellOf e = (case side e of
                 Top \<Rightarrow> (x1 e, y1 e)
               | Right \<Rightarrow> (x1 e - 1, y1 e)
               | Bottom \<Rightarrow> (x2 e, y2 e - 1)
               | Left \<Rightarrow> (x2 e, y2 e))"

text \<open>
  A lattice point is a positive diagonal when its top-left and bottom-right cells are
  occupied, the other two are empty, and the pseudo-random value keyed on \<open>seed + 1\<close> is
  below the ratio; a negative diagonal is the mirror image, keyed on \<open>seed + 2\<close>.
  \<open>bridgesAt\<close> lists the records due at one lattice point and \<open>bridgeKeys\<close> the lattice
  points of a range that are marked.
\<close>

definition positiveDiagonal :: "numberOps \<Rightarrow> (int \<Rightarrow> int \<Rightarrow> bool) \<Rightarrow> real \<Rightarrow> real \<Rightarrow> int \<Rightarrow> int \<Rightarrow> bool" where
  "positiveDiagonal ops has sd ratio lx ly =
     (has (lx - 1) (ly - 1) \<and> has lx ly \<and> \<not> has lx (ly - 1) \<and> \<not> has (lx - 1) ly \<and>
      pseudoRandom ops lx ly (numAdd ops sd 1) < ratio)"

definition negativeDiagonal :: "numberOps \<Rightarrow> (int \<Rightarrow> int \<Rightarrow> bool) \<Rightarrow> real \<Rightarrow> real \<Rightarrow> int \<Rightarrow> int \<Rightarrow> bool" where
  "negativeDiagonal ops has sd ratio lx ly =
     (has lx (ly - 1) \<and> has (lx - 1) ly \<and> \<not> has (lx - 1) (ly - 1) \<and> \<not> has lx ly \<and>
      pseudoRandom ops lx ly (numAdd ops sd 2) < ratio)"

definition bridgesAt :: "numberOps \<Rightarrow> (int \<Rightarrow> int \<Rightarrow> bool) \<Rightarrow> real \<Rightarrow> real \<Rightarrow> int \<Rightarrow> int \<Rightarrow> bridge list" where
  "bridgesAt ops has sd ratio lx ly =
     (if positiveDiagonal ops has sd ratio lx ly
      then [\<lparr>X = lx, Y = ly, quadrant = TR_GAP_FILLET\<rparr>, \<lparr>X = lx, Y = ly, quadrant = BL_GAP_FILLET\<rparr>]
      else []) @
     (if negativeDiagonal ops has sd ratio lx ly
      then [\<lparr>X = lx, Y = ly, quadrant = BR_GAP_FILLET\<rparr>, \<lparr>X = lx, Y = ly, quadrant = TL_GAP_FILLET\<rparr>]
      else [])"

definition bridgeKeys :: "numberOps \<Rightarrow> (int \<Rightarrow> int \<Rightarrow> bool) \<Rightarrow> real \<Rightarrow> real \<Rightarrow> int list \<Rightarrow> int list \<Rightarrow> cell set" where
  "bridgeKeys ops has sd ratio xs ys =
     {(lx, ly). lx \<in> set xs \<and> ly \<in> set ys \<and>
        (positiveDiagonal ops has sd ratio lx ly \<or> negativeDiagonal ops has sd ratio lx ly)}"



text \<open>
  The arithmetic of the real numbers, exact: an instance of the parameter on which the
  examples below are evaluated.
\<close>

definition exactOps :: numberOps where
  "exactOps =
     \<lparr>numAdd = (+), numSub = (-), numMul = (*), numSin = sin,
      numFloor = (\<lambda>n. of_int \<lfloor>n\<rfloor>)\<rparr>"



text \<open>
  The state after the geometry has been recomputed for the two diagonal cells \<open>(0,0)\<close> and
  \<open>(1,1)\<close> on the initial 32 by 32 grid, with \<open>roundedRatio = 1\<close>. It is the same for
  every arithmetic whose pseudo-random values are below 1.
\<close>

definition diagonalState :: state where
  "diagonalState = regenerateRounding exactOps (initialState\<lparr>pixels := [(0, 0), (1, 1)], roundedRatio := 1\<rparr>)"

text \<open>
  The invariant of the history while strokes are painted from an empty grid with an empty
  history: nothing to redo, at most \<open>k\<close> snapshots, and the oldest snapshot, when there is
  one, is the empty grid.
\<close>

definition histInv :: "nat \<Rightarrow> state \<Rightarrow> bool" where
  "histInv k s =
     (redoStack s = [] \<and> length (history s) \<le> k \<and>
      (if history s = [] then pixels s = [] else hd (history s) = []))"

definition histInv_color :: "nat \<Rightarrow> state_color \<Rightarrow> bool" where
  "histInv_color k s =
     (redoStack_color s = [] \<and> length (history_color s) \<le> k \<and>
      (if history_color s = [] then pixelMap s = [] else hd (history_color s) = []))"

text \<open>
  An example beyond the cap: on a grid 128 cells wide, stroke number \<open>j\<close> paints the cell
  \<open>(j, 0)\<close>, so that after \<open>k\<close> strokes the cells \<open>(0,0)\<close> to \<open>(k-1, 0)\<close> are painted.
\<close>

definition wideState :: state where
  "wideState = initialState\<lparr>gridWidth := 128\<rparr>"

definition rowCells :: "nat \<Rightarrow> cell list" where
  "rowCells k = map (\<lambda>j. (int j, 0)) [0..<k]"

definition rowStrokes :: "nat \<Rightarrow> cell list list list" where
  "rowStrokes k = map (\<lambda>j. [[(int j, 0)]]) [0..<k]"

text \<open>
  A cell is painted by a call of \<open>updatePixels\<close> when it lies inside the grid and inside
  the square of side \<open>brushSize\<close> placed at one of the points, shifted back by
  \<open>floor (brushSize / 2)\<close>. \<open>brushKeys\<close> lists the keys the three loops visit, in their
  order, and \<open>applyKey\<close> is what the loop body does with one key.
\<close>

definition inBounds :: "int \<Rightarrow> int \<Rightarrow> cell \<Rightarrow> bool" where
  "inBounds gw gh c = (0 \<le> fst c \<and> fst c < gw \<and> 0 \<le> snd c \<and> snd c < gh)"

definition brushCovers :: "int \<Rightarrow> cell \<Rightarrow> cell \<Rightarrow> bool" where
  "brushCovers sz pt c =
     (fst pt - sz div 2 \<le> fst c \<and> fst c < fst pt - sz div 2 + sz \<and>
      snd pt - sz div 2 \<le> snd c \<and> snd c < snd pt - sz div 2 + sz)"

definition painted :: "int \<Rightarrow> int \<Rightarrow> int \<Rightarrow> cell list \<Rightarrow> cell \<Rightarrow> bool" where
  "painted gw gh sz pts c = (inBounds gw gh c \<and> (\<exists>pt \<in> set pts. brushCovers sz pt c))"

definition brushKeys :: "int \<Rightarrow> cell list \<Rightarrow> cell list" where
  "brushKeys sz pts =
     concat (map (\<lambda>pt. concat (map (\<lambda>dy. map (\<lambda>dx. (fst pt + dx - sz div 2, snd pt + dy - sz div 2))
                                                [0..sz - 1]) [0..sz - 1])) pts)"

definition applyKey :: "int \<Rightarrow> int \<Rightarrow> tool \<Rightarrow> cell \<Rightarrow> cell list \<Rightarrow> cell list" where
  "applyKey gw gh act k next =
     (if inBounds gw gh k
      then (if act = Brush then setAdd k next else setDelete k next) else next)"

definition applyKey_color ::
  "int \<Rightarrow> int \<Rightarrow> string \<Rightarrow> tool_color \<Rightarrow> cell \<Rightarrow> (cell \<times> string) list \<Rightarrow> (cell \<times> string) list"
where
  "applyKey_color gw gh col act k next =
     (if inBounds gw gh k
      then (if act = Brush_c then AList.update k col next
            else if act = Eraser_c then AList.delete k next else next)
      else next)"

section \<open>Contour tracing: the loops\<close>

lemma near_int: "(100 * \<bar>a - b\<bar> < 1) = (a = b)" for a b :: int
  by arith

lemma joinsNear_eq: "joinsNear = joinsExact"
  by (intro ext) (simp add: joinsNear_def joinsExact_def near_int)

lemma joinsExact_iff: "joinsExact a b = (endp a = startp b)"
  by (auto simp: joinsExact_def startp_def endp_def)

lemma finite_outIdx: "finite (outIdx edges used v)" and finite_inIdx: "finite (inIdx edges used v)"
  by (auto simp: outIdx_def inIdx_def)

lemma outIdx_insert:
  "outIdx edges (insert j used) v = outIdx edges used v - {j}"
  by (auto simp: outIdx_def)

lemma inIdx_insert:
  "inIdx edges (insert j used) v = inIdx edges used v - {j}"
  by (auto simp: inIdx_def)

lemma card_outIdx_insert:
  assumes "j < length edges" "j \<notin> used"
  shows "int (card (outIdx edges (insert j used) v)) =
         int (card (outIdx edges used v)) - (if startp (edges ! j) = v then 1 else 0)"
proof (cases "startp (edges ! j) = v")
  case True
  then have "j \<in> outIdx edges used v" using assms by (simp add: outIdx_def)
  then have "card (outIdx edges used v - {j}) = card (outIdx edges used v) - 1"
        and "card (outIdx edges used v) > 0"
    using finite_outIdx by (auto simp: card_gt_0_iff)
  then show ?thesis using True by (simp add: outIdx_insert)
next
  case False
  then have "j \<notin> outIdx edges used v" by (simp add: outIdx_def)
  then show ?thesis using False by (simp add: outIdx_insert)
qed

lemma card_inIdx_insert:
  assumes "j < length edges" "j \<notin> used"
  shows "int (card (inIdx edges (insert j used) v)) =
         int (card (inIdx edges used v)) - (if endp (edges ! j) = v then 1 else 0)"
proof (cases "endp (edges ! j) = v")
  case True
  then have "j \<in> inIdx edges used v" using assms by (simp add: inIdx_def)
  then have "card (inIdx edges used v - {j}) = card (inIdx edges used v) - 1"
        and "card (inIdx edges used v) > 0"
    using finite_inIdx by (auto simp: card_gt_0_iff)
  then show ?thesis using True by (simp add: inIdx_insert)
next
  case False
  then have "j \<notin> inIdx edges used v" by (simp add: inIdx_def)
  then show ?thesis using False by (simp add: inIdx_insert)
qed

lemma excess_insert:
  assumes "j < length edges" "j \<notin> used"
  shows "excess edges (insert j used) v =
         excess edges used v - (if startp (edges ! j) = v then 1 else 0)
                             + (if endp (edges ! j) = v then 1 else 0)"
  unfolding excess_def card_outIdx_insert [OF assms] card_inIdx_insert [OF assms] by simp

lemma chained_snoc:
  "chained c \<Longrightarrow> c \<noteq> [] \<Longrightarrow> startp e = endp (last c) \<Longrightarrow> chained (c @ [e])"
  by (induction c rule: chained.induct) auto

lemma chained_nth:
  "chained c \<Longrightarrow> Suc k < length c \<Longrightarrow> startp (c ! Suc k) = endp (c ! k)"
proof (induction c arbitrary: k rule: chained.induct)
  case (3 e f rest)
  then show ?case by (cases k) auto
qed simp_all

lemma find_upt_Some:
  assumes "find P [0..<n] = Some j"
  shows "j < n" "P j"
  using assms by (auto simp: find_Some_iff)

lemma traceLoop_closed:
  assumes "traceLoop joinsExact edges used contour current = (c', u')"
    and "\<forall>v. excess edges used v =
             (if v = endp current then 1 else 0) - (if v = startp (hd contour) then 1 else 0)"
    and "contour \<noteq> []" and "last contour = current" and "chained contour"
    and "endp current \<noteq> startp (hd contour)"
  shows "chained c' \<and> closedLoop c' \<and> (\<forall>v. excess edges u' v = 0)"
  using assms
proof (induction joinsExact edges used contour current rule: traceLoop.induct)
  case (1 edges used contour current)
  let ?P = "\<lambda>j. j \<notin> used \<and> joinsExact current (edges ! j)"
  have "excess edges used (endp current) = 1"
    using "1.prems"(2) [THEN spec, of "endp current"] "1.prems"(6) by simp
  then have "card (outIdx edges used (endp current)) > 0"
    by (simp add: excess_def)
  then obtain j0 where "j0 \<in> outIdx edges used (endp current)"
    by (auto simp: card_gt_0_iff)
  then have "j0 \<in> set [0..<length edges]" "?P j0"
    by (auto simp: outIdx_def joinsExact_iff)
  then have "find ?P [0..<length edges] \<noteq> None"
    by (auto simp: find_None_iff)
  then obtain j where fj: "find ?P [0..<length edges] = Some j" by auto
  note j = find_upt_Some [OF fj]
  let ?e = "edges ! j"
  have se: "startp ?e = endp current" using j(2) by (simp add: joinsExact_iff)
  have ch: "chained (contour @ [?e])"
    using chained_snoc "1.prems"(3,4,5) se by simp
  have hd': "hd (contour @ [?e]) = hd contour" using "1.prems"(3) by simp
  have jn: "j \<notin> used" using j(2) by simp
  have ex: "\<forall>v. excess edges (insert j used) v =
              (if v = endp ?e then 1 else 0) - (if v = startp (hd contour) then 1 else 0)"
  proof
    fix v
    show "excess edges (insert j used) v =
              (if v = endp ?e then 1 else 0) - (if v = startp (hd contour) then 1 else 0)"
      unfolding excess_insert [OF j(1) jn]
      using "1.prems"(2) [THEN spec, of v] se by simp
  qed
  show ?case
  proof (cases "joinsExact ?e (hd (contour @ [?e]))")
    case True
    then have res: "c' = contour @ [?e]" "u' = insert j used"
      using "1.prems"(1) fj by (simp_all add: traceLoop.simps [of joinsExact edges used contour current])
    have cl: "endp ?e = startp (hd contour)" using True hd' by (simp add: joinsExact_iff)
    have "closedLoop (contour @ [?e])" using cl hd' by (simp add: closedLoop_def)
    moreover have "\<forall>v. excess edges (insert j used) v = 0"
    proof
      fix v show "excess edges (insert j used) v = 0"
        using ex [THEN spec, of v] cl by simp
    qed
    ultimately show ?thesis using res ch by simp
  next
    case False
    then have rec: "traceLoop joinsExact edges (insert j used) (contour @ [?e]) ?e = (c', u')"
      using "1.prems"(1) fj by (simp add: traceLoop.simps [of joinsExact edges used contour current])
    have ncl: "endp ?e \<noteq> startp (hd (contour @ [?e]))" using False by (simp add: joinsExact_iff)
    show ?thesis
      using "1.hyps" [OF fj False rec _ _ _ ch ncl] ex hd' by simp
  qed
qed

lemma traceLoop_indices:
  assumes "traceLoop joins edges used contour current = (c', u')"
  shows "\<exists>js. c' = contour @ map ((!) edges) js \<and> distinct js \<and> set js \<inter> used = {} \<and>
              set js \<subseteq> {..<length edges} \<and> u' = used \<union> set js"
  using assms
proof (induction joins edges used contour current rule: traceLoop.induct)
  case (1 joins edges used contour current)
  let ?P = "\<lambda>j. j \<notin> used \<and> joins current (edges ! j)"
  show ?case
  proof (cases "find ?P [0..<length edges]")
    case None
    then have "c' = contour" "u' = used"
      using "1.prems" by (simp_all add: traceLoop.simps [of joins edges used contour current])
    then show ?thesis by (intro exI [of _ "[]"]) simp
  next
    case (Some j)
    note j = find_upt_Some [OF Some]
    let ?e = "edges ! j"
    show ?thesis
    proof (cases "joins ?e (hd (contour @ [?e]))")
      case True
      then have "c' = contour @ [?e]" "u' = insert j used"
        using "1.prems" Some by (simp_all add: traceLoop.simps [of joins edges used contour current])
      then show ?thesis using j by (intro exI [of _ "[j]"]) simp
    next
      case False
      then have rec: "traceLoop joins edges (insert j used) (contour @ [?e]) ?e = (c', u')"
        using "1.prems" Some by (simp add: traceLoop.simps [of joins edges used contour current])
      from "1.IH" [OF Some False rec] obtain js where
        js: "c' = (contour @ [?e]) @ map ((!) edges) js" "distinct js"
            "set js \<inter> insert j used = {}" "set js \<subseteq> {..<length edges}"
            "u' = insert j used \<union> set js"
        by blast
      show ?thesis using js j by (intro exI [of _ "j # js"]) auto
    qed
  qed
qed

lemma balancedD: "balanced edges used \<Longrightarrow> excess edges used v = 0"
  unfolding balanced_def by blast

lemma contourLoop_wellFormed:
  assumes "contourLoop joinsExact edges idxs contours used = (cs', u')"
    and "balanced edges used"
    and "\<forall>c \<in> set contours. wellFormed c"
    and "\<forall>i \<in> set idxs. i < length edges"
    and "\<forall>e \<in> set edges. startp e \<noteq> endp e"
  shows "\<forall>c \<in> set cs'. wellFormed c"
  using assms
proof (induction idxs arbitrary: contours used)
  case Nil
  then show ?case by simp
next
  case (Cons i rest)
  show ?case
  proof (cases "i \<in> used")
    case True
    then have "contourLoop joinsExact edges rest contours used = (cs', u')"
      using Cons.prems(1) by simp
    moreover have "\<forall>i \<in> set rest. i < length edges" using Cons.prems(4) by simp
    ultimately show ?thesis
      by (rule Cons.IH [OF _ Cons.prems(2,3) _ Cons.prems(5)])
  next
    case False
    obtain c u where tr: "traceLoop joinsExact edges (insert i used) [edges ! i] (edges ! i) = (c, u)"
      by (cases "traceLoop joinsExact edges (insert i used) [edges ! i] (edges ! i)")
    let ?cs = "if length c > 2 then contours @ [c] else contours"
    have rec: "contourLoop joinsExact edges rest ?cs u = (cs', u')"
      using Cons.prems(1) False tr by simp
    have i: "i < length edges" using Cons.prems(4) by simp
    then have "edges ! i \<in> set edges" by simp
    then have nd: "endp (edges ! i) \<noteq> startp (hd [edges ! i])"
      using Cons.prems(5) by fastforce
    have ex: "\<forall>v. excess edges (insert i used) v =
               (if v = endp (edges ! i) then 1 else 0) -
               (if v = startp (hd [edges ! i]) then 1 else 0)"
    proof
      fix v
      show "excess edges (insert i used) v =
               (if v = endp (edges ! i) then 1 else 0) -
               (if v = startp (hd [edges ! i]) then 1 else 0)"
        unfolding excess_insert [OF i False]
        by (simp add: balancedD [OF Cons.prems(2)])
    qed
    have ch1: "chained [edges ! i]" by simp
    have "chained c \<and> closedLoop c \<and> (\<forall>v. excess edges u v = 0)"
      by (rule traceLoop_closed [OF tr ex _ _ ch1 nd]) simp_all
    then have c: "chained c" "closedLoop c" "balanced edges u"
      unfolding balanced_def by blast+
    have wf: "\<forall>c \<in> set ?cs. wellFormed c"
      using Cons.prems(3) c by (simp add: wellFormed_def)
    have idx: "\<forall>i \<in> set rest. i < length edges" using Cons.prems(4) by simp
    show ?thesis
      by (rule Cons.IH [OF rec c(3) wf idx Cons.prems(5)])
  qed
qed

lemma contourLoop_indices:
  assumes "contourLoop joins edges idxs contours used = (cs', u')"
    and "contours = map (map ((!) edges)) iss"
    and "distinct (concat iss)"
    and "set (concat iss) \<subseteq> used"
    and "set (concat iss) \<subseteq> {..<length edges}"
    and "\<forall>i \<in> set idxs. i < length edges"
  shows "\<exists>iss'. cs' = map (map ((!) edges)) iss' \<and> distinct (concat iss') \<and>
                set (concat iss') \<subseteq> {..<length edges}"
  using assms
proof (induction idxs arbitrary: contours used iss)
  case Nil
  then show ?case by auto
next
  case (Cons i rest)
  show ?case
  proof (cases "i \<in> used")
    case True
    then have "contourLoop joins edges rest contours used = (cs', u')"
      using Cons.prems(1) by simp
    from Cons.IH [OF this Cons.prems(2,3,4,5)] Cons.prems(6) show ?thesis by simp
  next
    case False
    obtain c u where tr: "traceLoop joins edges (insert i used) [edges ! i] (edges ! i) = (c, u)"
      by (cases "traceLoop joins edges (insert i used) [edges ! i] (edges ! i)")
    let ?cs = "if length c > 2 then contours @ [c] else contours"
    have rec: "contourLoop joins edges rest ?cs u = (cs', u')"
      using Cons.prems(1) False tr by simp
    have i: "i < length edges" using Cons.prems(6) by simp
    from traceLoop_indices [OF tr] obtain js where
      js: "c = [edges ! i] @ map ((!) edges) js" "distinct js" "set js \<inter> insert i used = {}"
          "set js \<subseteq> {..<length edges}" "u = insert i used \<union> set js"
      by blast
    let ?iss = "if length c > 2 then iss @ [i # js] else iss"
    have 1: "?cs = map (map ((!) edges)) ?iss"
      using Cons.prems(2) js(1) by simp
    have 2: "distinct (concat ?iss)"
      using Cons.prems(3,4) js(2,3) False by auto
    have 3: "set (concat ?iss) \<subseteq> u"
      using Cons.prems(4) js(5) by auto
    have 4: "set (concat ?iss) \<subseteq> {..<length edges}"
      using Cons.prems(5) js(4) i by auto
    from Cons.IH [OF rec 1 2 3 4] Cons.prems(6) show ?thesis by simp
  qed
qed

lemma traceContours_indices:
  "\<exists>iss. traceContours joins edges = map (map ((!) edges)) iss \<and> distinct (concat iss) \<and>
          set (concat iss) \<subseteq> {..<length edges}"
proof (cases "length edges = 0")
  case True
  then show ?thesis by (intro exI [of _ "[]"]) (simp add: traceContours_def)
next
  case False
  obtain cs u where cl: "contourLoop joins edges [0..<length edges] [] {} = (cs, u)"
    by (cases "contourLoop joins edges [0..<length edges] [] {}")
  from contourLoop_indices [OF cl, of "[]"] False cl show ?thesis
    by (simp add: traceContours_def)
qed

lemma traceContours_distinct:
  assumes "distinct edges"
  shows "distinct (concat (traceContours joins edges))"
proof -
  from traceContours_indices obtain iss where
    iss: "traceContours joins edges = map (map ((!) edges)) iss" "distinct (concat iss)"
         "set (concat iss) \<subseteq> {..<length edges}"
    by blast
  have "inj_on ((!) edges) (set (concat iss))"
  proof (rule inj_onI)
    fix a b
    assume ab: "a \<in> set (concat iss)" "b \<in> set (concat iss)" "edges ! a = edges ! b"
    then have "a < length edges" "b < length edges" using iss(3) by blast+
    then show "a = b" using assms ab(3) by (simp add: nth_eq_iff_index_eq)
  qed
  then have "distinct (map ((!) edges) (concat iss))"
    using iss(2) by (simp add: distinct_map)
  then show ?thesis by (simp add: iss(1) map_concat)
qed

lemma traceContours_subset:
  "c \<in> set (traceContours joins edges) \<Longrightarrow> set c \<subseteq> set edges"
proof -
  assume c: "c \<in> set (traceContours joins edges)"
  from traceContours_indices obtain iss where
    iss: "traceContours joins edges = map (map ((!) edges)) iss"
         "set (concat iss) \<subseteq> {..<length edges}"
    by blast
  from c iss(1) obtain js where "js \<in> set iss" "c = map ((!) edges) js" by auto
  then show ?thesis using iss(2) by auto
qed

lemma traceContours_wellFormed:
  assumes "balanced edges {}" and "\<forall>e \<in> set edges. startp e \<noteq> endp e"
    and "c \<in> set (traceContours joinsExact edges)"
  shows "wellFormed c"
proof (cases "length edges = 0")
  case True
  then show ?thesis using assms(3) by (simp add: traceContours_def)
next
  case False
  obtain cs u where cl: "contourLoop joinsExact edges [0..<length edges] [] {} = (cs, u)"
    by (cases "contourLoop joinsExact edges [0..<length edges] [] {}")
  from contourLoop_wellFormed [OF cl assms(1) _ _ assms(2)] have "\<forall>c \<in> set cs. wellFormed c"
    by simp
  then show ?thesis using assms(3) False cl by (simp add: traceContours_def)
qed

lemma boundaryEdges_inGrid:
  "inGrid gw gh ps \<Longrightarrow> boundaryEdges gw gh ps = allEdges (hasPixel ps) ps"
  unfolding boundaryEdges_def allEdges_def inGrid_def
  by (intro arg_cong [where f = concat] map_cong) auto

lemma boundaryEdges_color_eq:
  "boundaryEdges_color pm = allEdges (hasPixel (map fst pm)) (map fst pm)"
  by (simp add: boundaryEdges_color_def allEdges_def)

lemma allEdges_Cons: "allEdges has ((a, b) # ps) = cellEdges has a b @ allEdges has ps"
  by (simp add: allEdges_def)

lemma allEdges_Nil: "allEdges has [] = []"
  by (simp add: allEdges_def)

lemma count_start_cell:
  "length (filter (\<lambda>e. startp e = (a, b)) (cellEdges has c d)) =
     (if (c, d) = (a, b) \<and> \<not> has a (b - 1) then 1 else 0) +
     (if (c, d) = (a - 1, b) \<and> \<not> has a b then 1 else 0) +
     (if (c, d) = (a - 1, b - 1) \<and> \<not> has (a - 1) b then 1 else 0) +
     (if (c, d) = (a, b - 1) \<and> \<not> has (a - 1) (b - 1) then 1 else 0)"
  by (auto simp: cellEdges_def startp_def)

lemma count_end_cell:
  "length (filter (\<lambda>e. endp e = (a, b)) (cellEdges has c d)) =
     (if (c, d) = (a - 1, b) \<and> \<not> has (a - 1) (b - 1) then 1 else 0) +
     (if (c, d) = (a - 1, b - 1) \<and> \<not> has a (b - 1) then 1 else 0) +
     (if (c, d) = (a, b - 1) \<and> \<not> has a b then 1 else 0) +
     (if (c, d) = (a, b) \<and> \<not> has (a - 1) b then 1 else 0)"
  by (auto simp: cellEdges_def endp_def)

lemma four_sum:
  fixes i1 :: nat
  shows "i1 + s1 = t1 \<Longrightarrow> i2 + s2 = t2 \<Longrightarrow> i3 + s3 = t3 \<Longrightarrow> i4 + s4 = t4 \<Longrightarrow>
         (i1 + i2 + i3 + i4) + (s1 + s2 + s3 + s4) = t1 + t2 + t3 + t4"
  by simp

lemma count_start_all:
  "distinct ps \<Longrightarrow>
   length (filter (\<lambda>e. startp e = (a, b)) (allEdges has ps)) =
     (if (a, b) \<in> set ps \<and> \<not> has a (b - 1) then 1 else 0) +
     (if (a - 1, b) \<in> set ps \<and> \<not> has a b then 1 else 0) +
     (if (a - 1, b - 1) \<in> set ps \<and> \<not> has (a - 1) b then 1 else 0) +
     (if (a, b - 1) \<in> set ps \<and> \<not> has (a - 1) (b - 1) then 1 else 0)"
proof (induction ps)
  case Nil
  then show ?case by (simp add: allEdges_Nil)
next
  case (Cons p ps)
  obtain c d where p: "p = (c, d)" by (cases p)
  have "(c, d) \<notin> set ps" and "distinct ps" using Cons.prems p by simp_all
  then show ?case
    unfolding p allEdges_Cons filter_append length_append count_start_cell Cons.IH [OF \<open>distinct ps\<close>]
    by (intro four_sum) auto
qed

lemma count_end_all:
  "distinct ps \<Longrightarrow>
   length (filter (\<lambda>e. endp e = (a, b)) (allEdges has ps)) =
     (if (a - 1, b) \<in> set ps \<and> \<not> has (a - 1) (b - 1) then 1 else 0) +
     (if (a - 1, b - 1) \<in> set ps \<and> \<not> has a (b - 1) then 1 else 0) +
     (if (a, b - 1) \<in> set ps \<and> \<not> has a b then 1 else 0) +
     (if (a, b) \<in> set ps \<and> \<not> has (a - 1) b then 1 else 0)"
proof (induction ps)
  case Nil
  then show ?case by (simp add: allEdges_Nil)
next
  case (Cons p ps)
  obtain c d where p: "p = (c, d)" by (cases p)
  have "(c, d) \<notin> set ps" and "distinct ps" using Cons.prems p by simp_all
  then show ?case
    unfolding p allEdges_Cons filter_append length_append count_end_cell Cons.IH [OF \<open>distinct ps\<close>]
    by (intro four_sum) auto
qed

lemma excess_empty:
  "excess edges {} v =
     int (length (filter (\<lambda>e. startp e = v) edges)) - int (length (filter (\<lambda>e. endp e = v) edges))"
  by (simp add: excess_def outIdx_def inIdx_def length_filter_conv_card)

lemma allEdges_balanced:
  assumes "distinct ps"
  shows "balanced (allEdges (hasPixel ps) ps) {}"
  unfolding balanced_def
proof
  fix v :: cell
  obtain a b where v: "v = (a, b)" by (cases v)
  show "excess (allEdges (hasPixel ps) ps) {} v = 0"
    unfolding v excess_empty count_start_all [OF assms] count_end_all [OF assms]
    by (simp add: hasPixel_def)
qed

lemma cellEdges_nondegenerate: "e \<in> set (cellEdges has a b) \<Longrightarrow> startp e \<noteq> endp e"
  by (auto simp: cellEdges_def startp_def endp_def split: if_splits)

lemma allEdges_mem: "e \<in> set (allEdges has ps) \<Longrightarrow> \<exists>(a, b) \<in> set ps. e \<in> set (cellEdges has a b)"
  by (auto simp: allEdges_def)

lemma allEdges_nondegenerate: "e \<in> set (allEdges has ps) \<Longrightarrow> startp e \<noteq> endp e"
  using allEdges_mem cellEdges_nondegenerate by blast

lemma cellEdges_cellOf: "e \<in> set (cellEdges has a b) \<Longrightarrow> cellOf e = (a, b)"
  by (auto simp: cellEdges_def cellOf_def split: if_splits)

lemma cellEdges_distinct: "distinct (cellEdges has a b)"
  by (simp add: cellEdges_def)

lemma allEdges_distinct: "distinct ps \<Longrightarrow> distinct (allEdges has ps)"
proof (induction ps)
  case Nil
  then show ?case by (simp add: allEdges_Nil)
next
  case (Cons p ps)
  obtain c d where p: "p = (c, d)" by (cases p)
  have notin: "(c, d) \<notin> set ps" and d: "distinct ps" using Cons.prems p by simp_all
  have "set (cellEdges has c d) \<inter> set (allEdges has ps) = {}"
  proof (rule ccontr)
    assume "set (cellEdges has c d) \<inter> set (allEdges has ps) \<noteq> {}"
    then obtain e where e: "e \<in> set (cellEdges has c d)" "e \<in> set (allEdges has ps)" by blast
    from allEdges_mem [OF e(2)] obtain a b where "(a, b) \<in> set ps" "e \<in> set (cellEdges has a b)"
      by blast
    then show False
      using cellEdges_cellOf [OF e(1)] cellEdges_cellOf [of e has a b] notin by simp
  qed
  then show ?case
    unfolding p allEdges_Cons using Cons.IH [OF d] cellEdges_distinct by simp
qed

lemma boundaryEdges_filter:
  "boundaryEdges gw gh ps =
     allEdges (hasPixel ps) (filter (\<lambda>(a, b). \<not> (a \<ge> gw \<or> b \<ge> gh \<or> a < 0 \<or> b < 0)) ps)"
proof -
  have "concat (map (\<lambda>(a, b). if a \<ge> gw \<or> b \<ge> gh \<or> a < 0 \<or> b < 0 then []
                                else cellEdges has a b) qs) =
        allEdges has (filter (\<lambda>(a, b). \<not> (a \<ge> gw \<or> b \<ge> gh \<or> a < 0 \<or> b < 0)) qs)" for has qs
    by (induction qs) (auto simp: allEdges_def)
  then show ?thesis by (simp add: boundaryEdges_def)
qed

lemma boundaryEdges_distinct: "distinct ps \<Longrightarrow> distinct (boundaryEdges gw gh ps)"
  by (simp add: boundaryEdges_filter allEdges_distinct)

lemma boundaryEdges_color_distinct:
  "distinct (map fst pm) \<Longrightarrow> distinct (boundaryEdges_color pm)"
  by (simp add: boundaryEdges_color_eq allEdges_distinct)

lemma wellFormed_all:
  assumes "distinct ps" and "c \<in> set (traceContours joinsExact (allEdges (hasPixel ps) ps))"
  shows "length c > 2 \<and> chained c \<and> closedLoop c"
proof -
  have "\<forall>e \<in> set (allEdges (hasPixel ps) ps). startp e \<noteq> endp e"
    using allEdges_nondegenerate by blast
  from traceContours_wellFormed [OF allEdges_balanced [OF assms(1)] this assms(2)]
  show ?thesis by (simp add: wellFormed_def)
qed

section \<open>Bridge synthesis and rounding selection: the loops\<close>

lemma pseudoRandom_range:
  "0 \<le> pseudoRandom exactOps a b sd \<and> pseudoRandom exactOps a b sd < 1"
  unfolding pseudoRandom_def exactOps_def Let_def by simp linarith

lemma bridgeStep_eq:
  "bridgeStep ops has sd ratio lx ly acc =
     (fst acc @ bridgesAt ops has sd ratio lx ly,
      (\<lambda>k. if k \<in> bridgeKeys ops has sd ratio [lx] [ly] then Some True else snd acc k))"
  by (cases acc)
     (auto simp: bridgeStep_def bridgesAt_def bridgeKeys_def positiveDiagonal_def
        negativeDiagonal_def Let_def fun_eq_iff)

lemma fold_bridgeStep:
  "fold (bridgeStep ops has sd ratio lx) ys acc =
     (fst acc @ concat (map (bridgesAt ops has sd ratio lx) ys),
      (\<lambda>k. if k \<in> bridgeKeys ops has sd ratio [lx] ys then Some True else snd acc k))"
proof (induction ys arbitrary: acc)
  case Nil
  then show ?case by (simp add: bridgeKeys_def)
next
  case (Cons ly ys)
  let ?a = "bridgeStep ops has sd ratio lx ly acc"
  have "fold (bridgeStep ops has sd ratio lx) (ly # ys) acc = fold (bridgeStep ops has sd ratio lx) ys ?a"
    by simp
  also have "\<dots> = (fst ?a @ concat (map (bridgesAt ops has sd ratio lx) ys),
      (\<lambda>k. if k \<in> bridgeKeys ops has sd ratio [lx] ys then Some True else snd ?a k))"
    by (rule Cons.IH)
  also have "\<dots> = (fst acc @ concat (map (bridgesAt ops has sd ratio lx) (ly # ys)),
      (\<lambda>k. if k \<in> bridgeKeys ops has sd ratio [lx] (ly # ys) then Some True else snd acc k))"
    by (auto simp: bridgeStep_eq bridgeKeys_def fun_eq_iff)
  finally show ?case .
qed

lemma fold_fold_bridgeStep:
  "fold (\<lambda>lx. fold (bridgeStep ops has sd ratio lx) ys) xs acc =
     (fst acc @ concat (map (\<lambda>lx. concat (map (bridgesAt ops has sd ratio lx) ys)) xs),
      (\<lambda>k. if k \<in> bridgeKeys ops has sd ratio xs ys then Some True else snd acc k))"
proof (induction xs arbitrary: acc)
  case Nil
  then show ?case by (simp add: bridgeKeys_def)
next
  case (Cons lx xs)
  let ?f = "\<lambda>lx. fold (bridgeStep ops has sd ratio lx) ys"
  let ?a = "?f lx acc"
  have "fold ?f (lx # xs) acc = fold ?f xs ?a"
    by simp
  also have "\<dots> = (fst ?a @ concat (map (\<lambda>lx. concat (map (bridgesAt ops has sd ratio lx) ys)) xs),
      (\<lambda>k. if k \<in> bridgeKeys ops has sd ratio xs ys then Some True else snd ?a k))"
    by (rule Cons.IH)
  also have "\<dots> = (fst acc @ concat (map (\<lambda>lx. concat (map (bridgesAt ops has sd ratio lx) ys)) (lx # xs)),
      (\<lambda>k. if k \<in> bridgeKeys ops has sd ratio (lx # xs) ys then Some True else snd acc k))"
    by (auto simp: fold_bridgeStep bridgeKeys_def fun_eq_iff)
  finally show ?case .
qed

lemma synthesizeBridges_eq:
  "synthesizeBridges ops mode sd ratio gw gh ps =
     (if mode \<noteq> Outer \<and> ps \<noteq> []
      then (concat (map (\<lambda>lx. concat (map (bridgesAt ops (hasPixel ps) sd ratio lx) [1..gh - 1]))
                        [1..gw - 1]),
            (\<lambda>k. if k \<in> bridgeKeys ops (hasPixel ps) sd ratio [1..gw - 1] [1..gh - 1]
                  then Some True else None))
      else ([], Map.empty))"
  by (simp add: synthesizeBridges_def fold_fold_bridgeStep cong: if_cong)


lemma regenerateRounding_bridges:
  "bridges (regenerateRounding ops s) =
     fst (synthesizeBridges ops (cornerMode s) (seed s) (roundedRatio s) (gridWidth s) (gridHeight s) (pixels s))"
  "bridgeMap (regenerateRounding ops s) =
     snd (synthesizeBridges ops (cornerMode s) (seed s) (roundedRatio s) (gridWidth s) (gridHeight s) (pixels s))"
  "roundedCorners (regenerateRounding ops s) =
     selectRounded ops (cornerMode s) (seed s) (roundedRatio s)
       (findContour (gridWidth s) (gridHeight s) (pixels s))"
  by (simp_all add: regenerateRounding_def Let_def split: prod.splits)

lemma concat_map_single:
  "k \<in> set ys \<Longrightarrow> distinct ys \<Longrightarrow>
   concat (map (\<lambda>i. if P \<and> i = k then zs else []) ys) = (if P then zs else [])"
  by (induction ys) auto

lemma hasPixel_two:
  assumes "set ps = {(0, 0), (1, 1)}"
  shows "hasPixel ps a b = (a = 0 \<and> b = 0 \<or> a = 1 \<and> b = 1)"
  using assms by (simp add: hasPixel_def)

lemma diag_only_positive:
  assumes "set ps = {(0, 0), (1, 1)}" and "pseudoRandom ops 1 1 (numAdd ops sd 1) < ratio"
  shows "positiveDiagonal ops (hasPixel ps) sd ratio lx ly = (lx = 1 \<and> ly = 1)"
  unfolding positiveDiagonal_def hasPixel_two [OF assms(1)]
  using assms(2) by auto

lemma diag_only_negative:
  assumes "set ps = {(0, 0), (1, 1)}"
  shows "negativeDiagonal ops (hasPixel ps) sd ratio lx ly = False"
  unfolding negativeDiagonal_def hasPixel_two [OF assms] by auto

lemma diag_only_bridgesAt:
  assumes "set ps = {(0, 0), (1, 1)}" and "pseudoRandom ops 1 1 (numAdd ops sd 1) < ratio"
  shows "bridgesAt ops (hasPixel ps) sd ratio lx ly =
     (if lx = 1 \<and> ly = 1
      then [\<lparr>X = 1, Y = 1, quadrant = TR_GAP_FILLET\<rparr>, \<lparr>X = 1, Y = 1, quadrant = BL_GAP_FILLET\<rparr>]
      else [])"
  by (simp add: bridgesAt_def diag_only_positive [OF assms] diag_only_negative [OF assms(1)])

lemma diag_only_bridges:
  assumes "set ps = {(0, 0), (1, 1)}" "2 \<le> gw" "2 \<le> gh"
    and "pseudoRandom ops 1 1 (numAdd ops sd 1) < ratio"
  shows "concat (map (\<lambda>lx. concat (map (bridgesAt ops (hasPixel ps) sd ratio lx) [1..gh - 1])) [1..gw - 1]) =
     [\<lparr>X = 1, Y = 1, quadrant = TR_GAP_FILLET\<rparr>, \<lparr>X = 1, Y = 1, quadrant = BL_GAP_FILLET\<rparr>]"
proof -
  let ?zs = "[\<lparr>X = 1, Y = 1, quadrant = TR_GAP_FILLET\<rparr>, \<lparr>X = 1, Y = 1, quadrant = BL_GAP_FILLET\<rparr>]"
  have fn: "bridgesAt ops (hasPixel ps) sd ratio lx = (\<lambda>ly. if lx = 1 \<and> ly = 1 then ?zs else [])" for lx
    by (rule ext) (simp add: diag_only_bridgesAt [OF assms(1,4)])
  have inner: "concat (map (bridgesAt ops (hasPixel ps) sd ratio lx) [1..gh - 1]) =
               (if True \<and> lx = 1 then ?zs else [])" for lx
    unfolding fn using concat_map_single [of 1 "[1..gh - 1]" "lx = 1" ?zs] assms(3)
    by simp
  show ?thesis
    unfolding inner
    using concat_map_single [of 1 "[1..gw - 1]" True ?zs] assms(2) by simp
qed

lemma diag_only_keys:
  assumes "set ps = {(0, 0), (1, 1)}" "2 \<le> gw" "2 \<le> gh"
    and "pseudoRandom ops 1 1 (numAdd ops sd 1) < ratio"
  shows "bridgeKeys ops (hasPixel ps) sd ratio [1..gw - 1] [1..gh - 1] = {(1, 1)}"
  unfolding bridgeKeys_def diag_only_positive [OF assms(1,4)] diag_only_negative [OF assms(1)]
  using assms(2,3) by auto





section \<open>Paths: contours of unit edges, and the diagonal example\<close>








lemma pseudoRandom_lt_1: "pseudoRandom exactOps a b sd < 1"
  using pseudoRandom_range by blast

lemma diag_fc:
  "findContour 32 32 [(0, 0), (1, 1)] =
     [[\<lparr>x1 = 0, y1 = 0, x2 = 1, y2 = 0, side = Top\<rparr>,
       \<lparr>x1 = 1, y1 = 0, x2 = 1, y2 = 1, side = Right\<rparr>,
       \<lparr>x1 = 1, y1 = 1, x2 = 0, y2 = 1, side = Bottom\<rparr>,
       \<lparr>x1 = 0, y1 = 1, x2 = 0, y2 = 0, side = Left\<rparr>],
      [\<lparr>x1 = 1, y1 = 1, x2 = 2, y2 = 1, side = Top\<rparr>,
       \<lparr>x1 = 2, y1 = 1, x2 = 2, y2 = 2, side = Right\<rparr>,
       \<lparr>x1 = 2, y1 = 2, x2 = 1, y2 = 2, side = Bottom\<rparr>,
       \<lparr>x1 = 1, y1 = 2, x2 = 1, y2 = 1, side = Left\<rparr>]]"
  by (simp add: findContour_def traceContours_def boundaryEdges_def
          cellEdges_def hasPixel_def joinsNear_def upt_rec)

lemma diag_regenerate:
  assumes "\<And>a b sd. pseudoRandom ops a b sd < 1"
  shows "bridges (regenerateRounding ops (initialState\<lparr>pixels := [(0, 0), (1, 1)], roundedRatio := 1\<rparr>)) =
     [\<lparr>X = 1, Y = 1, quadrant = TR_GAP_FILLET\<rparr>, \<lparr>X = 1, Y = 1, quadrant = BL_GAP_FILLET\<rparr>]"
    and "bridgeMap (regenerateRounding ops (initialState\<lparr>pixels := [(0, 0), (1, 1)], roundedRatio := 1\<rparr>)) =
     [(1, 1) \<mapsto> True]"
    and "roundedCorners (regenerateRounding ops (initialState\<lparr>pixels := [(0, 0), (1, 1)], roundedRatio := 1\<rparr>)) =
     {(0, 0), (0, 1), (0, 2), (0, 3), (1, 0), (1, 1), (1, 2), (1, 3)}"
proof -
  have set: "set [(0::int, 0::int), (1, 1)] = {(0, 0), (1, 1)}" by simp
  have v: "pseudoRandom ops 1 1 (numAdd ops 12345 1) < 1" by (rule assms)
  show "bridges (regenerateRounding ops (initialState\<lparr>pixels := [(0, 0), (1, 1)], roundedRatio := 1\<rparr>)) =
     [\<lparr>X = 1, Y = 1, quadrant = TR_GAP_FILLET\<rparr>, \<lparr>X = 1, Y = 1, quadrant = BL_GAP_FILLET\<rparr>]"
    using diag_only_bridges [OF set _ _ v, of 32 32]
    by (simp add: regenerateRounding_bridges synthesizeBridges_eq initialState_def)
  show "bridgeMap (regenerateRounding ops (initialState\<lparr>pixels := [(0, 0), (1, 1)], roundedRatio := 1\<rparr>)) =
     [(1, 1) \<mapsto> True]"
    using diag_only_keys [OF set _ _ v, of 32 32]
    by (auto simp: regenerateRounding_bridges synthesizeBridges_eq initialState_def fun_eq_iff)
  show "roundedCorners (regenerateRounding ops (initialState\<lparr>pixels := [(0, 0), (1, 1)], roundedRatio := 1\<rparr>)) =
     {(0, 0), (0, 1), (0, 2), (0, 3), (1, 0), (1, 1), (1, 2), (1, 3)}"
    apply (simp add: regenerateRounding_bridges initialState_def diag_fc)
    apply (simp add: selectRounded_def upt_rec roundingStep_def assms)
    apply auto
    done
qed

lemma diag_state:
  "pixels diagonalState = [(0, 0), (1, 1)]"
  "gridWidth diagonalState = 32" "gridHeight diagonalState = 32" "aspectRatio diagonalState = 1"
  "roundness diagonalState = 0.4"
  "bridges diagonalState =
     [\<lparr>X = 1, Y = 1, quadrant = TR_GAP_FILLET\<rparr>, \<lparr>X = 1, Y = 1, quadrant = BL_GAP_FILLET\<rparr>]"
  "bridgeMap diagonalState = [(1, 1) \<mapsto> True]"
  "roundedCorners diagonalState = {(0, 0), (0, 1), (0, 2), (0, 3), (1, 0), (1, 1), (1, 2), (1, 3)}"
proof -
  show "pixels diagonalState = [(0, 0), (1, 1)]"
    "gridWidth diagonalState = 32" "gridHeight diagonalState = 32" "aspectRatio diagonalState = 1"
    "roundness diagonalState = 0.4"
    by (simp_all add: diagonalState_def regenerateRounding_def initialState_def Let_def split: prod.splits)
  show "bridges diagonalState =
     [\<lparr>X = 1, Y = 1, quadrant = TR_GAP_FILLET\<rparr>, \<lparr>X = 1, Y = 1, quadrant = BL_GAP_FILLET\<rparr>]"
    unfolding diagonalState_def by (rule diag_regenerate(1) [OF pseudoRandom_lt_1])
  show "bridgeMap diagonalState = [(1, 1) \<mapsto> True]"
    unfolding diagonalState_def by (rule diag_regenerate(2) [OF pseudoRandom_lt_1])
  show "roundedCorners diagonalState = {(0, 0), (0, 1), (0, 2), (0, 3), (1, 0), (1, 1), (1, 2), (1, 3)}"
    unfolding diagonalState_def by (rule diag_regenerate(3) [OF pseudoRandom_lt_1])
qed

lemma diag_metrics:
  "getDisplayMetrics 32 32 1 =
     \<lparr>visualPixelWidth = 175 / 8, visualPixelHeight = 175 / 8, scaleFactor = 175 / 8,
      displayWidth = 700, displayHeight = 700\<rparr>"
  by (simp add: getDisplayMetrics_def MAX_DISPLAY_SIZE_def Let_def)

lemma ex_bool_True: "\<exists>b::bool. b"
  by (rule exI [of _ True]) simp

section \<open>History: strokes, undo and redo\<close>

lemma updatePixels_fields:
  "history (updatePixels pts a s) = history s"
  "redoStack (updatePixels pts a s) = redoStack s"
  by (simp_all add: updatePixels_def)

lemma fold_updatePixels_fields:
  "history (fold (\<lambda>points. updatePixels points a) batches s) = history s \<and>
   redoStack (fold (\<lambda>points. updatePixels points a) batches s) = redoStack s"
  by (induction batches arbitrary: s) (simp_all add: updatePixels_fields)

lemma paintStroke_fields:
  "history (paintStroke batches s) = history (saveToHistory s)"
  "redoStack (paintStroke batches s) = redoStack (saveToHistory s)"
  by (simp_all add: paintStroke_def fold_updatePixels_fields)

lemma saveToHistory_inv:
  assumes "histInv k s" "k < 50"
  shows "redoStack (saveToHistory s) = [] \<and> history (saveToHistory s) \<noteq> [] \<and>
         hd (history (saveToHistory s)) = [] \<and> length (history (saveToHistory s)) \<le> Suc k"
proof (cases "length (history s) > 0 \<and> sameKeys (last (history s)) (pixels s)")
  case True
  then show ?thesis using assms by (auto simp: saveToHistory_def histInv_def)
next
  case False
  have "length (history s @ [pixels s]) - 50 = 0" using assms by (simp add: histInv_def)
  then have h: "history (saveToHistory s) = history s @ [pixels s]"
    and r: "redoStack (saveToHistory s) = []"
    unfolding saveToHistory_def if_not_P [OF False] by simp_all
  show ?thesis
    using assms(1) unfolding h r histInv_def by (cases "history s") auto
qed

lemma paintStroke_inv:
  assumes "histInv k s" "k < 50"
  shows "histInv (Suc k) (paintStroke batches s) \<and> history (paintStroke batches s) \<noteq> []"
  using saveToHistory_inv [OF assms] by (simp add: histInv_def paintStroke_fields)

lemma strokes_inv:
  assumes "histInv 0 s" "length strokes \<le> 50"
  shows "histInv (length strokes) (fold paintStroke strokes s) \<and>
         (strokes \<noteq> [] \<longrightarrow> history (fold paintStroke strokes s) \<noteq> [])"
  using assms(2)
proof (induction strokes rule: rev_induct)
  case Nil
  then show ?case using assms(1) by simp
next
  case (snoc b strokes)
  then have "histInv (length strokes) (fold paintStroke strokes s)" "length strokes < 50"
    by simp_all
  from paintStroke_inv [OF this, of b] show ?case by simp
qed

lemma handleUndo_empty: "history s = [] \<Longrightarrow> (handleUndo ^^ n) s = s"
  by (induction n) (simp_all add: handleUndo_def)

lemma handleRedo_empty: "redoStack s = [] \<Longrightarrow> (handleRedo ^^ n) s = s"
  by (induction n) (simp_all add: handleRedo_def)

lemma undo_all:
  assumes "history s = h" "h \<noteq> []" "length h \<le> n"
  shows "pixels ((handleUndo ^^ n) s) = hd h \<and> history ((handleUndo ^^ n) s) = [] \<and>
         redoStack ((handleUndo ^^ n) s) = tl h @ [pixels s] @ redoStack s"
  using assms
proof (induction h arbitrary: s n rule: rev_induct)
  case Nil
  then show ?case by simp
next
  case (snoc x h')
  then obtain n' where n: "n = Suc n'" by (cases n) auto
  let ?s = "handleUndo s"
  have s': "pixels ?s = x" "history ?s = h'" "redoStack ?s = pixels s # redoStack s"
    using snoc.prems(1) by (simp_all add: handleUndo_def)
  have step: "(handleUndo ^^ n) s = (handleUndo ^^ n') ?s"
    unfolding n by (simp add: funpow_swap1)
  show ?case
  proof (cases "h' = []")
    case True
    then show ?thesis unfolding step using s' by (simp add: handleUndo_empty)
  next
    case False
    have "length h' \<le> n'" using snoc.prems(3) n by simp
    from snoc.IH [OF s'(2) False this] show ?thesis
      unfolding step using s' False by simp
  qed
qed

lemma redo_all:
  assumes "redoStack s = r" "r \<noteq> []" "length r \<le> n"
  shows "pixels ((handleRedo ^^ n) s) = last r"
  using assms
proof (induction r arbitrary: s n)
  case Nil
  then show ?case by simp
next
  case (Cons x r')
  then obtain n' where n: "n = Suc n'" by (cases n) auto
  let ?s = "handleRedo s"
  have s': "pixels ?s = x" "redoStack ?s = r'"
    using Cons.prems(1) by (simp_all add: handleRedo_def)
  have step: "(handleRedo ^^ n) s = (handleRedo ^^ n') ?s"
    unfolding n by (simp add: funpow_swap1)
  show ?case
  proof (cases "r' = []")
    case True
    then show ?thesis unfolding step using s' by (simp add: handleRedo_empty)
  next
    case False
    have "length r' \<le> n'" using Cons.prems(3) n by simp
    from Cons.IH [OF s'(2) False this] show ?thesis
      unfolding step using False by simp
  qed
qed

lemma rowCells_Suc: "rowCells (Suc k) = rowCells k @ [(int k, 0)]"
  by (simp add: rowCells_def)

lemma rowStrokes_Suc: "rowStrokes (Suc k) = rowStrokes k @ [[[(int k, 0)]]]"
  by (simp add: rowStrokes_def)

lemma length_rowCells: "length (rowCells k) = k"
  by (simp add: rowCells_def)

lemma paint_one:
  assumes "k < 128"
  shows "updatePixelSet 128 32 1 [(int k, 0)] Brush (rowCells k) = rowCells (Suc k)"
proof -
  have "(int k, 0) \<notin> set (rowCells k)" by (auto simp: rowCells_def)
  then show ?thesis
    using assms by (simp add: updatePixelSet_def paintCell_def setAdd_def rowCells_Suc)
qed

lemma not_sameKeys_length: "length a \<noteq> length b \<Longrightarrow> \<not> sameKeys a b"
  by (simp add: sameKeys_def)

lemma row_run:
  "k \<le> 51 \<Longrightarrow>
   pixels (fold paintStroke (rowStrokes k) wideState) = rowCells k \<and>
   history (fold paintStroke (rowStrokes k) wideState) = drop (k - 50) (map rowCells [0..<k]) \<and>
   redoStack (fold paintStroke (rowStrokes k) wideState) = [] \<and>
   gridWidth (fold paintStroke (rowStrokes k) wideState) = 128 \<and>
   gridHeight (fold paintStroke (rowStrokes k) wideState) = 32 \<and>
   brushSize (fold paintStroke (rowStrokes k) wideState) = 1"
proof (induction k)
  case 0
  then show ?case by (simp add: rowStrokes_def rowCells_def wideState_def initialState_def)
next
  case (Suc k)
  let ?s = "fold paintStroke (rowStrokes k) wideState"
  have k: "k \<le> 50" using Suc.prems by simp
  have IH: "pixels ?s = rowCells k" "history ?s = drop (k - 50) (map rowCells [0..<k])"
    "redoStack ?s = []" "gridWidth ?s = 128" "gridHeight ?s = 32" "brushSize ?s = 1"
    using Suc.IH k by simp_all
  have nodup: "\<not> (length (history ?s) > 0 \<and> sameKeys (last (history ?s)) (pixels ?s))"
  proof (cases k)
    case 0
    then show ?thesis using IH(2) by simp
  next
    case (Suc k')
    then have pos: "0 < k" by simp
    have "k - 50 < length (map rowCells [0..<k])" using pos by simp
    then have "last (drop (k - 50) (map rowCells [0..<k])) = last (map rowCells [0..<k])"
      by (rule last_drop)
    also have "\<dots> = rowCells (k - 1)"
      using pos by (simp add: last_map)
    finally have "last (history ?s) = rowCells (k - 1)"
      unfolding IH(2) .
    then have "length (last (history ?s)) \<noteq> length (pixels ?s)"
      using pos by (simp add: IH(1) length_rowCells)
    then show ?thesis using not_sameKeys_length by blast
  qed
  have len: "length (history ?s @ [pixels ?s]) - 50 = (if k = 50 then 1 else 0)"
    using k by (simp add: IH(2))
  have hist: "history (saveToHistory ?s) = drop (Suc k - 50) (map rowCells [0..<Suc k])"
    unfolding saveToHistory_def if_not_P [OF nodup] using k len
    by (auto simp: IH(1,2))
  have rest: "pixels (saveToHistory ?s) = rowCells k" "redoStack (saveToHistory ?s) = []"
    "gridWidth (saveToHistory ?s) = 128" "gridHeight (saveToHistory ?s) = 32"
    "brushSize (saveToHistory ?s) = 1"
    unfolding saveToHistory_def if_not_P [OF nodup] using IH by simp_all
  have step: "fold paintStroke (rowStrokes (Suc k)) wideState =
              updatePixels [(int k, 0)] Brush (saveToHistory ?s)"
    by (simp add: rowStrokes_Suc paintStroke_def)
  have "k < 128" using k by simp
  from paint_one [OF this] show ?case
    unfolding step using hist rest by (simp add: updatePixels_def)
qed

lemma drop_one_map_upt:
  "2 \<le> n \<Longrightarrow> drop (n - (n - 1)) (map f [0..<n]) = f 1 # map f [2..<n]"
  by (simp add: drop_map upt_conv_Cons numeral_2_eq_2)

lemma fold_updatePixelMap_fields:
  "history_color (fold (\<lambda>points. updatePixelMap points a) batches s) = history_color s \<and>
   redoStack_color (fold (\<lambda>points. updatePixelMap points a) batches s) = redoStack_color s"
  by (induction batches arbitrary: s) (simp_all add: updatePixelMap_def)

lemma paintStroke_color_fields:
  "history_color (paintStroke_color batches s) = history_color (saveToHistory_color s)"
  "redoStack_color (paintStroke_color batches s) = redoStack_color (saveToHistory_color s)"
  by (simp_all add: paintStroke_color_def fold_updatePixelMap_fields)

lemma saveToHistory_color_inv:
  assumes "histInv_color k s" "k < 50"
  shows "redoStack_color (saveToHistory_color s) = [] \<and> history_color (saveToHistory_color s) \<noteq> [] \<and>
         hd (history_color (saveToHistory_color s)) = [] \<and>
         length (history_color (saveToHistory_color s)) \<le> Suc k"
proof (cases "length (history_color s) > 0 \<and>
            (length (last (history_color s)) = length (pixelMap s) \<and>
             length (last (history_color s)) = 0)")
  case True
  then show ?thesis using assms by (auto simp: saveToHistory_color_def histInv_color_def)
next
  case False
  have "length (history_color s @ [pixelMap s]) - 50 = 0"
    using assms by (simp add: histInv_color_def)
  then have h: "history_color (saveToHistory_color s) = history_color s @ [pixelMap s]"
    and r: "redoStack_color (saveToHistory_color s) = []"
    unfolding saveToHistory_color_def Let_def if_not_P [OF False] by simp_all
  show ?thesis
    using assms(1) unfolding h r histInv_color_def by (cases "history_color s") auto
qed

lemma paintStroke_color_inv:
  assumes "histInv_color k s" "k < 50"
  shows "histInv_color (Suc k) (paintStroke_color batches s) \<and>
         history_color (paintStroke_color batches s) \<noteq> []"
  using saveToHistory_color_inv [OF assms] by (simp add: histInv_color_def paintStroke_color_fields)

lemma strokes_color_inv:
  assumes "histInv_color 0 s" "length strokes \<le> 50"
  shows "histInv_color (length strokes) (fold paintStroke_color strokes s) \<and>
         (strokes \<noteq> [] \<longrightarrow> history_color (fold paintStroke_color strokes s) \<noteq> [])"
  using assms(2)
proof (induction strokes rule: rev_induct)
  case Nil
  then show ?case using assms(1) by simp
next
  case (snoc b strokes)
  then have "histInv_color (length strokes) (fold paintStroke_color strokes s)" "length strokes < 50"
    by simp_all
  from paintStroke_color_inv [OF this, of b] show ?case by simp
qed

lemma handleUndo_color_empty: "history_color s = [] \<Longrightarrow> (handleUndo_color ^^ n) s = s"
  by (induction n) (simp_all add: handleUndo_color_def)

lemma handleRedo_color_empty: "redoStack_color s = [] \<Longrightarrow> (handleRedo_color ^^ n) s = s"
  by (induction n) (simp_all add: handleRedo_color_def)

lemma undo_all_color:
  assumes "history_color s = h" "h \<noteq> []" "length h \<le> n"
  shows "pixelMap ((handleUndo_color ^^ n) s) = hd h \<and>
         history_color ((handleUndo_color ^^ n) s) = [] \<and>
         redoStack_color ((handleUndo_color ^^ n) s) = tl h @ [pixelMap s] @ redoStack_color s"
  using assms
proof (induction h arbitrary: s n rule: rev_induct)
  case Nil
  then show ?case by simp
next
  case (snoc x h')
  then obtain n' where n: "n = Suc n'" by (cases n) auto
  let ?s = "handleUndo_color s"
  have s': "pixelMap ?s = x" "history_color ?s = h'"
    "redoStack_color ?s = pixelMap s # redoStack_color s"
    using snoc.prems(1) by (simp_all add: handleUndo_color_def)
  have step: "(handleUndo_color ^^ n) s = (handleUndo_color ^^ n') ?s"
    unfolding n by (simp add: funpow_swap1)
  show ?case
  proof (cases "h' = []")
    case True
    then show ?thesis unfolding step using s' by (simp add: handleUndo_color_empty)
  next
    case False
    have "length h' \<le> n'" using snoc.prems(3) n by simp
    from snoc.IH [OF s'(2) False this] show ?thesis
      unfolding step using s' False by simp
  qed
qed

lemma redo_all_color:
  assumes "redoStack_color s = r" "r \<noteq> []" "length r \<le> n"
  shows "pixelMap ((handleRedo_color ^^ n) s) = last r"
  using assms
proof (induction r arbitrary: s n)
  case Nil
  then show ?case by simp
next
  case (Cons x r')
  then obtain n' where n: "n = Suc n'" by (cases n) auto
  let ?s = "handleRedo_color s"
  have s': "pixelMap ?s = x" "redoStack_color ?s = r'"
    using Cons.prems(1) by (simp_all add: handleRedo_color_def)
  have step: "(handleRedo_color ^^ n) s = (handleRedo_color ^^ n') ?s"
    unfolding n by (simp add: funpow_swap1)
  show ?case
  proof (cases "r' = []")
    case True
    then show ?thesis unfolding step using s' by (simp add: handleRedo_color_empty)
  next
    case False
    have "length r' \<le> n'" using Cons.prems(3) n by simp
    from Cons.IH [OF s'(2) False this] show ?thesis
      unfolding step using False by simp
  qed
qed

lemma undo_redo_strokes_color:
  assumes "pixelMap s = []" and "history_color s = []" and "redoStack_color s = []"
    and "1 \<le> length strokes" and "length strokes \<le> 50"
  shows "pixelMap ((handleUndo_color ^^ length strokes) (fold paintStroke_color strokes s)) = [] \<and>
         pixelMap ((handleRedo_color ^^ length strokes)
                   ((handleUndo_color ^^ length strokes) (fold paintStroke_color strokes s)))
           = pixelMap (fold paintStroke_color strokes s)"
proof -
  let ?s1 = "fold paintStroke_color strokes s"
  let ?n = "length strokes"
  have "histInv_color 0 s" using assms(1,2,3) by (simp add: histInv_color_def)
  from strokes_color_inv [OF this assms(5)] assms(4)
  have inv: "histInv_color ?n ?s1" and ne: "history_color ?s1 \<noteq> []" by auto
  then have len: "length (history_color ?s1) \<le> ?n" and hd: "hd (history_color ?s1) = []"
    and r: "redoStack_color ?s1 = []"
    by (simp_all add: histInv_color_def)
  from undo_all_color [OF refl ne len]
  have u: "pixelMap ((handleUndo_color ^^ ?n) ?s1) = []"
    and ur: "redoStack_color ((handleUndo_color ^^ ?n) ?s1) = tl (history_color ?s1) @ [pixelMap ?s1]"
    using hd r by simp_all
  have "length (tl (history_color ?s1) @ [pixelMap ?s1]) \<le> ?n"
    using len ne by (cases "history_color ?s1") auto
  from redo_all_color [OF ur _ this]
  have "pixelMap ((handleRedo_color ^^ ?n) ((handleUndo_color ^^ ?n) ?s1)) = pixelMap ?s1" by simp
  with u show ?thesis by simp
qed

lemma undo_redo_strokes_mono:
  assumes "pixels s = []" and "history s = []" and "redoStack s = []"
    and "1 \<le> length strokes" and "length strokes \<le> 50"
  shows "pixels ((handleUndo ^^ length strokes) (fold paintStroke strokes s)) = [] \<and>
         pixels ((handleRedo ^^ length strokes)
                   ((handleUndo ^^ length strokes) (fold paintStroke strokes s)))
           = pixels (fold paintStroke strokes s)"
proof -
  let ?s1 = "fold paintStroke strokes s"
  let ?n = "length strokes"
  have "histInv 0 s" using assms(1,2,3) by (simp add: histInv_def)
  from strokes_inv [OF this assms(5)] assms(4)
  have inv: "histInv ?n ?s1" and ne: "history ?s1 \<noteq> []" by auto
  then have len: "length (history ?s1) \<le> ?n" and hd: "hd (history ?s1) = []"
    and r: "redoStack ?s1 = []"
    by (simp_all add: histInv_def)
  from undo_all [OF refl ne len]
  have u: "pixels ((handleUndo ^^ ?n) ?s1) = []"
    and ur: "redoStack ((handleUndo ^^ ?n) ?s1) = tl (history ?s1) @ [pixels ?s1]"
    using hd r by simp_all
  have "length (tl (history ?s1) @ [pixels ?s1]) \<le> ?n" using len ne by (cases "history ?s1") auto
  from redo_all [OF ur _ this]
  have "pixels ((handleRedo ^^ ?n) ((handleUndo ^^ ?n) ?s1)) = pixels ?s1" by simp
  with u show ?thesis by simp
qed

section \<open>Painting: the brush loops\<close>

lemma paintCell_applyKey:
  "paintCell gw gh off act pt dy dx = applyKey gw gh act (fst pt + dx - off, snd pt + dy - off)"
  by (rule ext) (simp add: paintCell_def applyKey_def inBounds_def Let_def)

lemma paintCell_color_applyKey:
  "paintCell_color gw gh off col act pt dy dx =
     applyKey_color gw gh col act (fst pt + dx - off, snd pt + dy - off)"
  by (rule ext) (simp add: paintCell_color_def applyKey_color_def inBounds_def Let_def)

lemma fold_concat: "fold f (concat xss) = fold (fold f) xss"
  by (induction xss) simp_all

lemma fold_keys:
  "fold (\<lambda>pt. fold (\<lambda>dy. fold (\<lambda>dx. f (g pt dy dx)) dxs) dys) pts =
   fold f (concat (map (\<lambda>pt. concat (map (\<lambda>dy. map (\<lambda>dx. g pt dy dx) dxs) dys)) pts))"
proof -
  have 1: "fold (\<lambda>dx. f (g pt dy dx)) dxs = fold f (map (\<lambda>dx. g pt dy dx) dxs)" for pt dy
    by (simp add: fold_map comp_def)
  have 2: "fold (\<lambda>dy. fold f (map (\<lambda>dx. g pt dy dx) dxs)) dys =
           fold f (concat (map (\<lambda>dy. map (\<lambda>dx. g pt dy dx) dxs) dys))" for pt
    by (simp add: fold_concat fold_map comp_def)
  show ?thesis
    unfolding 1 2 by (simp add: fold_concat fold_map comp_def)
qed

lemma updatePixelSet_keys:
  "updatePixelSet gw gh sz pts act prev = fold (applyKey gw gh act) (brushKeys sz pts) prev"
  unfolding updatePixelSet_def Let_def paintCell_applyKey brushKeys_def
  using fold_keys [of "applyKey gw gh act" "\<lambda>pt dy dx. (fst pt + dx - sz div 2, snd pt + dy - sz div 2)"]
  by simp

lemma updatePixels_color_keys:
  "updatePixels_color gw gh sz col pts act prev =
     fold (applyKey_color gw gh col act) (brushKeys sz pts) prev"
  unfolding updatePixels_color_def Let_def paintCell_color_applyKey brushKeys_def
  using fold_keys [of "applyKey_color gw gh col act"
                      "\<lambda>pt dy dx. (fst pt + dx - sz div 2, snd pt + dy - sz div 2)"]
  by simp

lemma brushCovers_offsets:
  "(\<exists>dy \<in> {0..sz - 1}. \<exists>dx \<in> {0..sz - 1}.
      c = (fst pt + dx - sz div 2, snd pt + dy - sz div 2)) \<longleftrightarrow> brushCovers sz pt c"
proof
  assume "\<exists>dy \<in> {0..sz - 1}. \<exists>dx \<in> {0..sz - 1}.
      c = (fst pt + dx - sz div 2, snd pt + dy - sz div 2)"
  then show "brushCovers sz pt c" by (auto simp: brushCovers_def)
next
  assume b: "brushCovers sz pt c"
  let ?dx = "fst c - fst pt + sz div 2"
  let ?dy = "snd c - snd pt + sz div 2"
  have "?dy \<in> {0..sz - 1}" "?dx \<in> {0..sz - 1}"
    using b by (simp_all add: brushCovers_def)
  moreover have "c = (fst pt + ?dx - sz div 2, snd pt + ?dy - sz div 2)"
    by (cases c) simp
  ultimately show "\<exists>dy \<in> {0..sz - 1}. \<exists>dx \<in> {0..sz - 1}.
      c = (fst pt + dx - sz div 2, snd pt + dy - sz div 2)"
    by blast
qed

lemma brushKeys_mem: "c \<in> set (brushKeys sz pts) \<longleftrightarrow> (\<exists>pt \<in> set pts. brushCovers sz pt c)"
proof -
  have "c \<in> set (brushKeys sz pts) \<longleftrightarrow>
        (\<exists>pt \<in> set pts. \<exists>dy \<in> {0..sz - 1}. \<exists>dx \<in> {0..sz - 1}.
           c = (fst pt + dx - sz div 2, snd pt + dy - sz div 2))"
    unfolding brushKeys_def by (simp add: image_iff) 
  then show ?thesis unfolding brushCovers_offsets .
qed

lemma fold_applyKey_brush:
  "set (fold (applyKey gw gh Brush) ks acc) = set acc \<union> {k \<in> set ks. inBounds gw gh k}"
  by (induction ks arbitrary: acc) (auto simp: applyKey_def setAdd_def)

lemma fold_applyKey_eraser:
  "set (fold (applyKey gw gh Eraser) ks acc) = set acc - {k \<in> set ks. inBounds gw gh k}"
  by (induction ks arbitrary: acc) (auto simp: applyKey_def setDelete_def)

lemma fold_applyKey_distinct:
  "distinct acc \<Longrightarrow> distinct (fold (applyKey gw gh act) ks acc)"
  by (induction ks arbitrary: acc) (auto simp: applyKey_def setAdd_def setDelete_def distinct_removeAll)

lemma fold_applyKey_color_brush:
  "map_of (fold (applyKey_color gw gh col Brush_c) ks acc) c =
     (if c \<in> set ks \<and> inBounds gw gh c then Some col else map_of acc c)"
  by (induction ks arbitrary: acc) (auto simp: applyKey_color_def update_conv')

lemma fold_applyKey_color_eraser:
  "map_of (fold (applyKey_color gw gh col Eraser_c) ks acc) c =
     (if c \<in> set ks \<and> inBounds gw gh c then None else map_of acc c)"
  by (induction ks arbitrary: acc) (auto simp: applyKey_color_def delete_conv')

lemma fold_applyKey_color_distinct:
  "distinct (map fst acc) \<Longrightarrow> distinct (map fst (fold (applyKey_color gw gh col act) ks acc))"
  by (induction ks arbitrary: acc)
     (auto simp: applyKey_color_def distinct_update distinct_delete)

lemma painted_keys:
  "(c \<in> set (brushKeys sz pts) \<and> inBounds gw gh c) = painted gw gh sz pts c"
  by (auto simp: painted_def brushKeys_mem)

lemma updatePixels_distinct:
  "distinct (pixels s) \<Longrightarrow> distinct (pixels (updatePixels pts act s))"
  by (simp add: updatePixels_def updatePixelSet_keys fold_applyKey_distinct)

lemma updatePixels_color_distinct:
  "distinct (map fst prev) \<Longrightarrow>
   distinct (map fst (updatePixels_color gw gh sz col pts act prev))"
  by (simp add: updatePixels_color_keys fold_applyKey_color_distinct)

section \<open>Corner classification: the cross-product test\<close>

text \<open>
  C5. The vertex shared by two consecutive edges is classified convex exactly when the
  cross product \<open>dx1 * dy2 - dy1 * dx2\<close> of the two edge directions is positive, and concave
  exactly when it is not positive; collinear edges (cross product zero) are concave.
\<close>

theorem getCornerType_cross:
  "(getCornerType e1 e2 = Convex) =
     ((x2 e1 - x1 e1) * (y2 e2 - y1 e2) - (y2 e1 - y1 e1) * (x2 e2 - x1 e2) > 0) \<and>
   (getCornerType e1 e2 = Concave) =
     ((x2 e1 - x1 e1) * (y2 e2 - y1 e2) - (y2 e1 - y1 e1) * (x2 e2 - x1 e2) \<le> 0) \<and>
   ((x2 e1 - x1 e1) * (y2 e2 - y1 e2) - (y2 e1 - y1 e1) * (x2 e2 - x1 e2) = 0 \<longrightarrow>
      getCornerType e1 e2 = Concave)"
  by (auto simp: getCornerType_def Let_def)

theorem getCornerType_cross_witness:
  "getCornerType \<lparr>x1 = 0, y1 = 0, x2 = 1, y2 = 0, side = Top\<rparr>
                 \<lparr>x1 = 1, y1 = 0, x2 = 2, y2 = 0, side = Top\<rparr> = Concave \<and>
   getCornerType \<lparr>x1 = 0, y1 = 0, x2 = 1, y2 = 0, side = Top\<rparr>
                 \<lparr>x1 = 1, y1 = 0, x2 = 1, y2 = 1, side = Right\<rparr> = Convex"
  using getCornerType_cross [of "\<lparr>x1 = 0, y1 = 0, x2 = 1, y2 = 0, side = Top\<rparr>"
                                "\<lparr>x1 = 1, y1 = 0, x2 = 2, y2 = 0, side = Top\<rparr>"]
        getCornerType_cross [of "\<lparr>x1 = 0, y1 = 0, x2 = 1, y2 = 0, side = Top\<rparr>"
                                "\<lparr>x1 = 1, y1 = 0, x2 = 1, y2 = 1, side = Right\<rparr>"]
  by simp

section \<open>Contours are closed loops\<close>

text \<open>
  C1 fails on the code of the monochrome variant. Its \<open>findContour\<close> skips a stored cell
  outside the grid when pushing edges, but \<open>hasPixel\<close> still counts such a cell as an
  occupied neighbour, so an in-grid cell next to it gets no edge on that side although the
  edge borders a cell outside the grid. With \<open>gridWidth = 4\<close> and the cells \<open>(3,1)\<close>,
  \<open>(3,0)\<close>, \<open>(4,1)\<close>, \<open>(4,0)\<close> painted in this order (painted on a wider grid that was
  then narrowed), the contour returned is an open chain of four edges from \<open>(4,2)\<close> to
  \<open>(4,0)\<close>; the coloured variant, which has no bounds test, returns one closed loop of
  eight edges for the same cells. With the cells \<open>(3,0)\<close>, \<open>(4,0)\<close> the monochrome
  variant returns no contour at all, though \<open>(3,0)\<close> lies in the grid.
\<close>

theorem findContour_open_chain:
  "distinct [(3::int, 1::int), (3, 0), (4, 1), (4, 0)] \<and>
   findContour 4 4 [(3, 1), (3, 0), (4, 1), (4, 0)] =
     [[\<lparr>x1 = 4, y1 = 2, x2 = 3, y2 = 2, side = Bottom\<rparr>,
       \<lparr>x1 = 3, y1 = 2, x2 = 3, y2 = 1, side = Left\<rparr>,
       \<lparr>x1 = 3, y1 = 1, x2 = 3, y2 = 0, side = Left\<rparr>,
       \<lparr>x1 = 3, y1 = 0, x2 = 4, y2 = 0, side = Top\<rparr>]] \<and>
   \<not> closedLoop [\<lparr>x1 = 4, y1 = 2, x2 = 3, y2 = 2, side = Bottom\<rparr>,
       \<lparr>x1 = 3, y1 = 2, x2 = 3, y2 = 1, side = Left\<rparr>,
       \<lparr>x1 = 3, y1 = 1, x2 = 3, y2 = 0, side = Left\<rparr>,
       \<lparr>x1 = 3, y1 = 0, x2 = 4, y2 = 0, side = Top\<rparr>] \<and>
   findContour_color
     [((3, 1), ''#000000''), ((3, 0), ''#000000''), ((4, 1), ''#000000''), ((4, 0), ''#000000'')] =
     [[\<lparr>x1 = 4, y1 = 2, x2 = 3, y2 = 2, side = Bottom\<rparr>,
       \<lparr>x1 = 3, y1 = 2, x2 = 3, y2 = 1, side = Left\<rparr>,
       \<lparr>x1 = 3, y1 = 1, x2 = 3, y2 = 0, side = Left\<rparr>,
       \<lparr>x1 = 3, y1 = 0, x2 = 4, y2 = 0, side = Top\<rparr>,
       \<lparr>x1 = 4, y1 = 0, x2 = 5, y2 = 0, side = Top\<rparr>,
       \<lparr>x1 = 5, y1 = 0, x2 = 5, y2 = 1, side = Right\<rparr>,
       \<lparr>x1 = 5, y1 = 1, x2 = 5, y2 = 2, side = Right\<rparr>,
       \<lparr>x1 = 5, y1 = 2, x2 = 4, y2 = 2, side = Bottom\<rparr>]] \<and>
   closedLoop [\<lparr>x1 = 4, y1 = 2, x2 = 3, y2 = 2, side = Bottom\<rparr>,
       \<lparr>x1 = 3, y1 = 2, x2 = 3, y2 = 1, side = Left\<rparr>,
       \<lparr>x1 = 3, y1 = 1, x2 = 3, y2 = 0, side = Left\<rparr>,
       \<lparr>x1 = 3, y1 = 0, x2 = 4, y2 = 0, side = Top\<rparr>,
       \<lparr>x1 = 4, y1 = 0, x2 = 5, y2 = 0, side = Top\<rparr>,
       \<lparr>x1 = 5, y1 = 0, x2 = 5, y2 = 1, side = Right\<rparr>,
       \<lparr>x1 = 5, y1 = 1, x2 = 5, y2 = 2, side = Right\<rparr>,
       \<lparr>x1 = 5, y1 = 2, x2 = 4, y2 = 2, side = Bottom\<rparr>] \<and>
   findContour 4 4 [(3, 0), (4, 0)] = []"
proof (intro conjI)
  show "distinct [(3::int, 1::int), (3, 0), (4, 1), (4, 0)]" by simp
  show "findContour 4 4 [(3, 1), (3, 0), (4, 1), (4, 0)] =
     [[\<lparr>x1 = 4, y1 = 2, x2 = 3, y2 = 2, side = Bottom\<rparr>,
       \<lparr>x1 = 3, y1 = 2, x2 = 3, y2 = 1, side = Left\<rparr>,
       \<lparr>x1 = 3, y1 = 1, x2 = 3, y2 = 0, side = Left\<rparr>,
       \<lparr>x1 = 3, y1 = 0, x2 = 4, y2 = 0, side = Top\<rparr>]]"
    by (simp add: findContour_def traceContours_def boundaryEdges_def cellEdges_def hasPixel_def
          joinsNear_def upt_rec)
  show "\<not> closedLoop [\<lparr>x1 = 4, y1 = 2, x2 = 3, y2 = 2, side = Bottom\<rparr>,
       \<lparr>x1 = 3, y1 = 2, x2 = 3, y2 = 1, side = Left\<rparr>,
       \<lparr>x1 = 3, y1 = 1, x2 = 3, y2 = 0, side = Left\<rparr>,
       \<lparr>x1 = 3, y1 = 0, x2 = 4, y2 = 0, side = Top\<rparr>]"
    by (simp add: closedLoop_def startp_def endp_def)
  show "findContour_color
     [((3, 1), ''#000000''), ((3, 0), ''#000000''), ((4, 1), ''#000000''), ((4, 0), ''#000000'')] =
     [[\<lparr>x1 = 4, y1 = 2, x2 = 3, y2 = 2, side = Bottom\<rparr>,
       \<lparr>x1 = 3, y1 = 2, x2 = 3, y2 = 1, side = Left\<rparr>,
       \<lparr>x1 = 3, y1 = 1, x2 = 3, y2 = 0, side = Left\<rparr>,
       \<lparr>x1 = 3, y1 = 0, x2 = 4, y2 = 0, side = Top\<rparr>,
       \<lparr>x1 = 4, y1 = 0, x2 = 5, y2 = 0, side = Top\<rparr>,
       \<lparr>x1 = 5, y1 = 0, x2 = 5, y2 = 1, side = Right\<rparr>,
       \<lparr>x1 = 5, y1 = 1, x2 = 5, y2 = 2, side = Right\<rparr>,
       \<lparr>x1 = 5, y1 = 2, x2 = 4, y2 = 2, side = Bottom\<rparr>]]"
    by (simp add: findContour_color_def traceContours_def boundaryEdges_color_def cellEdges_def
          hasPixel_def joinsExact_def upt_rec)
  show "closedLoop [\<lparr>x1 = 4, y1 = 2, x2 = 3, y2 = 2, side = Bottom\<rparr>,
       \<lparr>x1 = 3, y1 = 2, x2 = 3, y2 = 1, side = Left\<rparr>,
       \<lparr>x1 = 3, y1 = 1, x2 = 3, y2 = 0, side = Left\<rparr>,
       \<lparr>x1 = 3, y1 = 0, x2 = 4, y2 = 0, side = Top\<rparr>,
       \<lparr>x1 = 4, y1 = 0, x2 = 5, y2 = 0, side = Top\<rparr>,
       \<lparr>x1 = 5, y1 = 0, x2 = 5, y2 = 1, side = Right\<rparr>,
       \<lparr>x1 = 5, y1 = 1, x2 = 5, y2 = 2, side = Right\<rparr>,
       \<lparr>x1 = 5, y1 = 2, x2 = 4, y2 = 2, side = Bottom\<rparr>]"
    by (simp add: closedLoop_def startp_def endp_def)
  show "findContour 4 4 [(3, 0), (4, 0)] = []"
    by (simp add: findContour_def traceContours_def boundaryEdges_def cellEdges_def hasPixel_def
          joinsNear_def upt_rec)
qed

text \<open>
  What does hold: in the coloured variant for every store, and in the monochrome variant
  for every store whose cells all lie inside \<open>[0, gridWidth) \<times> [0, gridHeight)\<close>, every
  contour that \<open>findContour\<close> returns has more than two edges, each of its edges starts
  where the previous one ends, and its last edge ends where its first edge starts. (A store
  never holds a key twice, which is what \<open>distinct\<close> says of its list.)
\<close>

theorem findContour_closed_loops:
  "(distinct (map fst pm) \<longrightarrow>
      (\<forall>c \<in> set (findContour_color pm). length c > 2 \<and> chained c \<and> closedLoop c)) \<and>
   (distinct ps \<and> inGrid gw gh ps \<longrightarrow>
      (\<forall>c \<in> set (findContour gw gh ps). length c > 2 \<and> chained c \<and> closedLoop c))"
  by (auto simp: findContour_def findContour_color_def joinsNear_eq boundaryEdges_inGrid
        boundaryEdges_color_eq dest: wellFormed_all)

text \<open>
  The theorem at the two diagonal cells \<open>(0,0)\<close> and \<open>(1,1)\<close>, where both variants return
  contours.
\<close>

theorem findContour_closed_loops_witness:
  "distinct (map fst [((0::int, 0::int), ''#000000''), ((1, 1), ''#FF3B30'')]) \<and>
   findContour_color [((0, 0), ''#000000''), ((1, 1), ''#FF3B30'')] \<noteq> [] \<and>
   list_all (\<lambda>c. length c > 2 \<and> chained c \<and> closedLoop c)
     (findContour_color [((0, 0), ''#000000''), ((1, 1), ''#FF3B30'')]) \<and>
   distinct [(0::int, 0::int), (1, 1)] \<and> inGrid 4 4 [(0, 0), (1, 1)] \<and>
   findContour 4 4 [(0, 0), (1, 1)] \<noteq> [] \<and>
   list_all (\<lambda>c. length c > 2 \<and> chained c \<and> closedLoop c)
     (findContour 4 4 [(0, 0), (1, 1)])"
proof -
  have 1: "distinct (map fst [((0::int, 0::int), ''#000000''), ((1, 1), ''#FF3B30'')])" by simp
  have 2: "distinct [(0::int, 0::int), (1, 1)] \<and> inGrid 4 4 [(0, 0), (1, 1)]"
    by (simp add: inGrid_def)
  have 3: "findContour_color [((0, 0), ''#000000''), ((1, 1), ''#FF3B30'')] \<noteq> []"
    by (simp add: findContour_color_def traceContours_def boundaryEdges_color_def cellEdges_def
          hasPixel_def joinsExact_def upt_rec)
  have 4: "findContour 4 4 [(0, 0), (1, 1)] \<noteq> []"
    by (simp add: findContour_def traceContours_def boundaryEdges_def cellEdges_def
          hasPixel_def joinsNear_def upt_rec)
  show ?thesis
    using findContour_closed_loops [of "[((0, 0), ''#000000''), ((1, 1), ''#FF3B30'')]"
            "[(0, 0), (1, 1)]" 4 4] 1 2 3 4
    unfolding list_all_iff by blast
qed

section \<open>Bridge placement\<close>



section \<open>Which vertices are rounded\<close>



section \<open>The exported path\<close>



section \<open>The raster path against the exported path\<close>

text \<open>
  C7 fails on the code. For the two diagonal cells on the initial grid (cells of 21.875 by
  21.875, roundness 0.4, so \<open>r = 8.75\<close>), \<open>drawScene\<close> passes \<open>r * minDim\<close> to
  \<open>drawBridgeFillet\<close>, which clamps it to half a cell, 10.9375, while \<open>getSVGString\<close>
  passes \<open>r\<close>: the fillet on the canvas starts at \<open>(21.875, 10.9375)\<close> and the exported one
  at \<open>(21.875, 13.125)\<close>. The contour vertices and the back-off points agree; the canvas
  draws each rounded corner with \<open>arcTo\<close>, the export with a quadratic curve.
\<close>

theorem bridge_fillet_radius_differs:
  "drawScene diagonalState =
     [MoveTo 0 0, LineTo (105 / 8) 0, ArcTo (175 / 8) 0 (175 / 8) (35 / 4) (35 / 4),
      LineTo (175 / 8) (175 / 8),
      LineTo (35 / 4) (175 / 8), ArcTo 0 (175 / 8) 0 (105 / 8) (35 / 4),
      LineTo 0 (35 / 4), ArcTo 0 0 (35 / 4) 0 (35 / 4), ClosePath,
      MoveTo (175 / 8) (175 / 8),
      LineTo 35 (175 / 8), ArcTo (175 / 4) (175 / 8) (175 / 4) (245 / 8) (35 / 4),
      LineTo (175 / 4) 35, ArcTo (175 / 4) (175 / 4) 35 (175 / 4) (35 / 4),
      LineTo (245 / 8) (175 / 4), ArcTo (175 / 8) (175 / 4) (175 / 8) 35 (35 / 4),
      LineTo (175 / 8) (175 / 8), ClosePath,
      MoveTo (175 / 8) (175 / 16), QuadTo (175 / 8) (175 / 8) (525 / 16) (175 / 8),
      LineTo (175 / 8) (175 / 8), LineTo (175 / 8) (175 / 16),
      MoveTo (175 / 16) (175 / 8), QuadTo (175 / 8) (175 / 8) (175 / 8) (525 / 16),
      LineTo (175 / 8) (175 / 8), LineTo (175 / 16) (175 / 8)] \<and>
   getSVGString diagonalState =
     [MoveTo 0 0, LineTo (105 / 8) 0, QuadTo (175 / 8) 0 (175 / 8) (35 / 4),
      LineTo (175 / 8) (175 / 8),
      LineTo (35 / 4) (175 / 8), QuadTo 0 (175 / 8) 0 (105 / 8),
      LineTo 0 (35 / 4), QuadTo 0 0 (35 / 4) 0, ClosePath,
      MoveTo (175 / 8) (175 / 8),
      LineTo 35 (175 / 8), QuadTo (175 / 4) (175 / 8) (175 / 4) (245 / 8),
      LineTo (175 / 4) 35, QuadTo (175 / 4) (175 / 4) 35 (175 / 4),
      LineTo (245 / 8) (175 / 4), QuadTo (175 / 8) (175 / 4) (175 / 8) 35,
      LineTo (175 / 8) (175 / 8), ClosePath,
      MoveTo (175 / 8) (105 / 8), QuadTo (175 / 8) (175 / 8) (245 / 8) (175 / 8),
      LineTo (175 / 8) (175 / 8), ClosePath,
      MoveTo (105 / 8) (175 / 8), QuadTo (175 / 8) (175 / 8) (175 / 8) (245 / 8),
      LineTo (175 / 8) (175 / 8), ClosePath]"
proof
  show "drawScene diagonalState =
     [MoveTo 0 0, LineTo (105 / 8) 0, ArcTo (175 / 8) 0 (175 / 8) (35 / 4) (35 / 4),
      LineTo (175 / 8) (175 / 8),
      LineTo (35 / 4) (175 / 8), ArcTo 0 (175 / 8) 0 (105 / 8) (35 / 4),
      LineTo 0 (35 / 4), ArcTo 0 0 (35 / 4) 0 (35 / 4), ClosePath,
      MoveTo (175 / 8) (175 / 8),
      LineTo 35 (175 / 8), ArcTo (175 / 4) (175 / 8) (175 / 4) (245 / 8) (35 / 4),
      LineTo (175 / 4) 35, ArcTo (175 / 4) (175 / 4) 35 (175 / 4) (35 / 4),
      LineTo (245 / 8) (175 / 4), ArcTo (175 / 8) (175 / 4) (175 / 8) 35 (35 / 4),
      LineTo (175 / 8) (175 / 8), ClosePath,
      MoveTo (175 / 8) (175 / 16), QuadTo (175 / 8) (175 / 8) (525 / 16) (175 / 8),
      LineTo (175 / 8) (175 / 8), LineTo (175 / 8) (175 / 16),
      MoveTo (175 / 16) (175 / 8), QuadTo (175 / 8) (175 / 8) (175 / 8) (525 / 16),
      LineTo (175 / 8) (175 / 8), LineTo (175 / 16) (175 / 8)]"
    by (simp add: drawScene_def diag_state diag_fc diag_metrics Let_def upt_rec
          drawSceneContour_def drawSceneEdge_def shouldRound_def drawBridgeFillet_def
          ex_bool_True)
  show "getSVGString diagonalState =
     [MoveTo 0 0, LineTo (105 / 8) 0, QuadTo (175 / 8) 0 (175 / 8) (35 / 4),
      LineTo (175 / 8) (175 / 8),
      LineTo (35 / 4) (175 / 8), QuadTo 0 (175 / 8) 0 (105 / 8),
      LineTo 0 (35 / 4), QuadTo 0 0 (35 / 4) 0, ClosePath,
      MoveTo (175 / 8) (175 / 8),
      LineTo 35 (175 / 8), QuadTo (175 / 4) (175 / 8) (175 / 4) (245 / 8),
      LineTo (175 / 4) 35, QuadTo (175 / 4) (175 / 4) 35 (175 / 4),
      LineTo (245 / 8) (175 / 4), QuadTo (175 / 8) (175 / 4) (175 / 8) 35,
      LineTo (175 / 8) (175 / 8), ClosePath,
      MoveTo (175 / 8) (105 / 8), QuadTo (175 / 8) (175 / 8) (245 / 8) (175 / 8),
      LineTo (175 / 8) (175 / 8), ClosePath,
      MoveTo (105 / 8) (175 / 8), QuadTo (175 / 8) (175 / 8) (175 / 8) (245 / 8),
      LineTo (175 / 8) (175 / 8), ClosePath]"
    by (simp add: getSVGString_def diag_state diag_fc diag_metrics Let_def upt_rec
          svgContour_def svgEdge_def shouldRound_def drawBridgeFillet_def ex_bool_True)
qed

section \<open>Undo and redo of paint strokes\<close>

text \<open>
  C8, as amended. In both variants: starting from an empty grid with an empty history and
  nothing to redo, after \<open>N\<close> paint strokes with \<open>1 \<le> N \<le> 50\<close> (each stroke snapshots the grid, unless it
  equals the last snapshot, and then paints its batches of points), \<open>N\<close> undos restore the
  empty grid, and \<open>N\<close> redos after them restore the grid as it was after the last stroke.
\<close>

theorem undo_redo_strokes:
  "(pixels s = [] \<and> history s = [] \<and> redoStack s = [] \<and>
    1 \<le> length strokes \<and> length strokes \<le> 50 \<longrightarrow>
      pixels ((handleUndo ^^ length strokes) (fold paintStroke strokes s)) = [] \<and>
      pixels ((handleRedo ^^ length strokes)
                ((handleUndo ^^ length strokes) (fold paintStroke strokes s)))
        = pixels (fold paintStroke strokes s)) \<and>
   (pixelMap t = [] \<and> history_color t = [] \<and> redoStack_color t = [] \<and>
    1 \<le> length strokes \<and> length strokes \<le> 50 \<longrightarrow>
      pixelMap ((handleUndo_color ^^ length strokes) (fold paintStroke_color strokes t)) = [] \<and>
      pixelMap ((handleRedo_color ^^ length strokes)
                ((handleUndo_color ^^ length strokes) (fold paintStroke_color strokes t)))
        = pixelMap (fold paintStroke_color strokes t))"
  using undo_redo_strokes_mono [of s strokes] undo_redo_strokes_color [of t strokes]
  by blast

theorem undo_redo_strokes_witness:
  "pixels ((handleUndo ^^ 2) (fold paintStroke [[[(0, 0)]], [[(1, 1)], [(2, 1)]]] initialState)) = [] \<and>
   pixels ((handleRedo ^^ 2)
             ((handleUndo ^^ 2) (fold paintStroke [[[(0, 0)]], [[(1, 1)], [(2, 1)]]] initialState)))
     = pixels (fold paintStroke [[[(0, 0)]], [[(1, 1)], [(2, 1)]]] initialState) \<and>
   pixels (fold paintStroke [[[(0, 0)]], [[(1, 1)], [(2, 1)]]] initialState) = [(0, 0), (1, 1), (2, 1)] \<and>
   pixelMap ((handleUndo_color ^^ 2)
               (fold paintStroke_color [[[(0, 0)]], [[(1, 1)], [(2, 1)]]] initialState_color)) = [] \<and>
   pixelMap ((handleRedo_color ^^ 2)
               ((handleUndo_color ^^ 2)
                  (fold paintStroke_color [[[(0, 0)]], [[(1, 1)], [(2, 1)]]] initialState_color)))
     = pixelMap (fold paintStroke_color [[[(0, 0)]], [[(1, 1)], [(2, 1)]]] initialState_color) \<and>
   pixelMap (fold paintStroke_color [[[(0, 0)]], [[(1, 1)], [(2, 1)]]] initialState_color)
     = [((0, 0), ''#000000''), ((1, 1), ''#000000''), ((2, 1), ''#000000'')]"
proof -
  have p: "pixels (fold paintStroke [[[(0, 0)]], [[(1, 1)], [(2, 1)]]] initialState)
             = [(0, 0), (1, 1), (2, 1)]"
    by (simp add: paintStroke_def saveToHistory_def sameKeys_def updatePixels_def
          updatePixelSet_def paintCell_def setAdd_def initialState_def)
  have q: "pixelMap (fold paintStroke_color [[[(0, 0)]], [[(1, 1)], [(2, 1)]]] initialState_color)
             = [((0, 0), ''#000000''), ((1, 1), ''#000000''), ((2, 1), ''#000000'')]"
    by (simp add: paintStroke_color_def saveToHistory_color_def updatePixelMap_def
          updatePixels_color_def paintCell_color_def initialState_color_def Let_def)
  show ?thesis
    using undo_redo_strokes [of initialState "[[[(0, 0)]], [[(1, 1)], [(2, 1)]]]" initialState_color] p q
    by (simp add: initialState_def initialState_color_def numeral_2_eq_2)
qed

text \<open>
  C8 as stated, for every \<open>N\<close>, fails beyond the cap: after 51 strokes that each paint a
  new cell the history holds the last 50 snapshots only, the snapshot of the empty grid is
  gone, and 51 undos end at the grid after the first stroke.
\<close>

theorem undo_beyond_cap_counterexample:
  "length (rowStrokes 51) = 51 \<and>
   pixels wideState = [] \<and> history wideState = [] \<and> redoStack wideState = [] \<and>
   pixels ((handleUndo ^^ 51) (fold paintStroke (rowStrokes 51) wideState)) = [(0, 0)]"
proof -
  let ?s = "fold paintStroke (rowStrokes 51) wideState"
  let ?h = "rowCells 1 # map rowCells [2..<51]"
  have "history ?s = drop (51 - 50) (map rowCells [0..<51])"
    using row_run [OF order_refl] by blast
  also have "\<dots> = ?h"
    using drop_one_map_upt [of 51 rowCells] by simp
  finally have h: "history ?s = ?h" .
  have "length ?h \<le> 51" by simp
  from undo_all [OF h _ this]
  have "pixels ((handleUndo ^^ 51) ?s) = rowCells 1" by simp
  then show ?thesis
    by (simp add: rowStrokes_def rowCells_def wideState_def initialState_def)
qed

section \<open>Painting and erasing\<close>

text \<open>
  C9. After \<open>updatePixels\<close> with a list of points, the occupied cells are the previous ones
  together with (brush) or without (eraser) exactly the cells that lie inside the grid and
  inside the square of side \<open>brushSize\<close> placed at one of the points, offset by
  \<open>floor (brushSize / 2)\<close>; cells of a square outside the grid are skipped. In the coloured
  variant the painted cells get the current colour, the erased ones lose theirs, and every
  other cell keeps its occupancy and its colour.
\<close>

theorem updatePixels_cells:
  "set (pixels (updatePixels pts Brush s)) =
     set (pixels s) \<union> {c. painted (gridWidth s) (gridHeight s) (brushSize s) pts c} \<and>
   set (pixels (updatePixels pts Eraser s)) =
     set (pixels s) - {c. painted (gridWidth s) (gridHeight s) (brushSize s) pts c} \<and>
   map_of (updatePixels_color gw gh sz col pts Brush_c prev) =
     (\<lambda>c. if painted gw gh sz pts c then Some col else map_of prev c) \<and>
   map_of (updatePixels_color gw gh sz col pts Eraser_c prev) =
     (\<lambda>c. if painted gw gh sz pts c then None else map_of prev c)"
proof (intro conjI)
  show "set (pixels (updatePixels pts Brush s)) =
     set (pixels s) \<union> {c. painted (gridWidth s) (gridHeight s) (brushSize s) pts c}"
    using painted_keys [of _ "brushSize s" pts "gridWidth s" "gridHeight s"]
    by (auto simp: updatePixels_def updatePixelSet_keys fold_applyKey_brush)
  show "set (pixels (updatePixels pts Eraser s)) =
     set (pixels s) - {c. painted (gridWidth s) (gridHeight s) (brushSize s) pts c}"
    using painted_keys [of _ "brushSize s" pts "gridWidth s" "gridHeight s"]
    by (auto simp: updatePixels_def updatePixelSet_keys fold_applyKey_eraser)
  show "map_of (updatePixels_color gw gh sz col pts Brush_c prev) =
     (\<lambda>c. if painted gw gh sz pts c then Some col else map_of prev c)"
    by (rule ext) (simp add: updatePixels_color_keys fold_applyKey_color_brush painted_keys)
  show "map_of (updatePixels_color gw gh sz col pts Eraser_c prev) =
     (\<lambda>c. if painted gw gh sz pts c then None else map_of prev c)"
    by (rule ext) (simp add: updatePixels_color_keys fold_applyKey_color_eraser painted_keys)
qed

text \<open>
  A brush of size 3 at the corner cell \<open>(0,0)\<close> paints the four cells of its square that
  lie in the grid; at a point outside the grid it paints nothing.
\<close>

theorem updatePixels_cells_witness:
  "set (pixels (updatePixels [(0, 0)] Brush (initialState\<lparr>brushSize := 3\<rparr>))) =
     {(0, 0), (1, 0), (0, 1), (1, 1)} \<and>
   pixels (updatePixels [(0, 0)] Brush (initialState\<lparr>brushSize := 3\<rparr>)) =
     [(0, 0), (1, 0), (0, 1), (1, 1)] \<and>
   pixels (updatePixels [(40, 40)] Brush (initialState\<lparr>brushSize := 3\<rparr>)) = []"
proof -
  have "{c. painted 32 32 3 [(0, 0)] c} = {(0, 0), (1, 0), (0, 1), (1, 1)}"
    by (auto simp: painted_def inBounds_def brushCovers_def)
  then have 1: "set (pixels (updatePixels [(0, 0)] Brush (initialState\<lparr>brushSize := 3\<rparr>))) =
     {(0, 0), (1, 0), (0, 1), (1, 1)}"
    using updatePixels_cells [of "[(0, 0)]" "initialState\<lparr>brushSize := 3\<rparr>"]
    by (simp add: initialState_def)
  have 2: "pixels (updatePixels [(0, 0)] Brush (initialState\<lparr>brushSize := 3\<rparr>)) =
     [(0, 0), (1, 0), (0, 1), (1, 1)]"
    by (simp add: updatePixels_def updatePixelSet_def paintCell_def setAdd_def initialState_def
          upto_rec1)
  have 3: "pixels (updatePixels [(40, 40)] Brush (initialState\<lparr>brushSize := 3\<rparr>)) = []"
    by (simp add: updatePixels_def updatePixelSet_def paintCell_def setAdd_def initialState_def
          upto_rec1)
  show ?thesis using 1 2 3 by simp
qed

section \<open>No boundary edge is traced twice\<close>

text \<open>
  C10. The edges of all the contours returned by one call of \<open>findContour\<close>, taken
  together, are pairwise distinct, and each of them is one of the boundary edges generated
  by that call: no edge occurs in two contours, nor twice in one. This holds in both
  variants, for every store.
\<close>

theorem findContour_edges_distinct:
  "(distinct ps \<longrightarrow>
      distinct (concat (findContour gw gh ps)) \<and>
      set (concat (findContour gw gh ps)) \<subseteq> set (boundaryEdges gw gh ps)) \<and>
   (distinct (map fst pm) \<longrightarrow>
      distinct (concat (findContour_color pm)) \<and>
      set (concat (findContour_color pm)) \<subseteq> set (boundaryEdges_color pm))"
  using traceContours_subset
  by (auto simp: findContour_def findContour_color_def traceContours_distinct
        boundaryEdges_distinct boundaryEdges_color_distinct)

theorem findContour_edges_distinct_witness:
  "distinct [(0::int, 0::int), (1, 1)] \<and>
   findContour 4 4 [(0, 0), (1, 1)] \<noteq> [] \<and>
   distinct (concat (findContour 4 4 [(0, 0), (1, 1)])) \<and>
   set (concat (findContour 4 4 [(0, 0), (1, 1)])) \<subseteq> set (boundaryEdges 4 4 [(0, 0), (1, 1)]) \<and>
   distinct (map fst [((0::int, 0::int), ''#000000''), ((1, 1), ''#FF3B30'')]) \<and>
   distinct (concat (findContour_color [((0, 0), ''#000000''), ((1, 1), ''#FF3B30'')])) \<and>
   set (concat (findContour_color [((0, 0), ''#000000''), ((1, 1), ''#FF3B30'')]))
     \<subseteq> set (boundaryEdges_color [((0, 0), ''#000000''), ((1, 1), ''#FF3B30'')])"
proof -
  have 1: "distinct [(0::int, 0::int), (1, 1)]" by simp
  have 2: "distinct (map fst [((0::int, 0::int), ''#000000''), ((1, 1), ''#FF3B30'')])" by simp
  have 3: "findContour 4 4 [(0, 0), (1, 1)] \<noteq> []"
    by (simp add: findContour_def traceContours_def boundaryEdges_def cellEdges_def
          hasPixel_def joinsNear_def upt_rec)
  show ?thesis
    using findContour_edges_distinct [of "[(0, 0), (1, 1)]" 4 4
            "[((0, 0), ''#000000''), ((1, 1), ''#FF3B30'')]"] 1 2 3
    by blast
qed

end
